theory Spec2Isabelle
  imports Complex_Main
begin

section \<open>Floating-point arithmetic of the module\<close>

text \<open>
  The module \<^verbatim>\<open>arima_c.c\<close> computes on C \<^verbatim>\<open>float\<close> values (IEEE 754 binary32) and
  widens to \<^verbatim>\<open>double\<close> (binary64) where a \<^verbatim>\<open>double\<close> literal or a \<^verbatim>\<open>math.h\<close>
  function takes part in an expression.  The functions of the module are embedded over
  a record of the arithmetic operations they use, with one carrier for \<^verbatim>\<open>float\<close> and
  one for \<^verbatim>\<open>double\<close>, so that every rounding step of the C expression is one
  operation of the model.  The three \<^verbatim>\<open>math.h\<close> functions the module calls
  (\<^verbatim>\<open>sqrt\<close>, \<^verbatim>\<open>log\<close>, \<^verbatim>\<open>pow\<close>) belong to the C library, not to the module,
  and are a second record that only the functions calling them receive.
\<close>

record ('f, 'd) arith =
  fadd :: "'f \<Rightarrow> 'f \<Rightarrow> 'f"
  fsub :: "'f \<Rightarrow> 'f \<Rightarrow> 'f"
  fmul :: "'f \<Rightarrow> 'f \<Rightarrow> 'f"
  fdiv :: "'f \<Rightarrow> 'f \<Rightarrow> 'f"
  flt :: "'f \<Rightarrow> 'f \<Rightarrow> bool"
  feq :: "'f \<Rightarrow> 'f \<Rightarrow> bool"
  i2f :: "int \<Rightarrow> 'f"
  finf :: "'f"
  f2d :: "'f \<Rightarrow> 'd"
  d2f :: "'d \<Rightarrow> 'f"
  dadd :: "'d \<Rightarrow> 'd \<Rightarrow> 'd"
  dsub :: "'d \<Rightarrow> 'd \<Rightarrow> 'd"
  dmul :: "'d \<Rightarrow> 'd \<Rightarrow> 'd"
  ddiv :: "'d \<Rightarrow> 'd \<Rightarrow> 'd"
  dneg :: "'d \<Rightarrow> 'd"
  deq :: "'d \<Rightarrow> 'd \<Rightarrow> bool"
  i2d :: "int \<Rightarrow> 'd"
  dlit :: "rat \<Rightarrow> 'd"

record 'd libm =
  lm_sqrt :: "'d \<Rightarrow> 'd"
  lm_log :: "'d \<Rightarrow> 'd"
  lm_pow :: "'d \<Rightarrow> 'd \<Rightarrow> 'd"

subsection \<open>IEEE 754 binary formats, round to nearest, ties to even\<close>

text \<open>
  A floating-point datum is a signed finite number (sign and magnitude, so that the two
  zeros are distinct), a signed infinity, or NaN.
\<close>

datatype fl = Num bool rat | Infty bool | NaN

record fmt =
  prec :: nat
  emin :: int
  emax :: int

definition binary32 :: fmt where
  "binary32 = \<lparr>prec = 24, emin = - 126, emax = 127\<rparr>"

definition binary64 :: fmt where
  "binary64 = \<lparr>prec = 53, emin = - 1022, emax = 1023\<rparr>"

definition pow2 :: "int \<Rightarrow> rat" where
  "pow2 e = (if 0 \<le> e then 2 ^ nat e else 1 / 2 ^ nat (- e))"

text \<open>The number of binary digits of a positive integer.\<close>

function bitlen :: "int \<Rightarrow> int" where
  "bitlen a = (if a \<le> 0 then 0 else 1 + bitlen (a div 2))"
  by pat_completeness auto
termination
  by (relation "measure nat") auto

declare bitlen.simps [simp del]

text \<open>\<open>ilog2 q\<close> is the exponent \<open>e\<close> with \<open>2^e \<le> q < 2^(e+1)\<close>, for \<open>q > 0\<close>.\<close>

definition ilog2 :: "rat \<Rightarrow> int" where
  "ilog2 q =
     (let (a, b) = quotient_of q;
          e0 = bitlen a - bitlen b
      in if pow2 e0 \<le> q then e0 else e0 - 1)"

definition rne :: "rat \<Rightarrow> int" where
  "rne q =
     (let f = \<lfloor>q\<rfloor>; r = q - of_int f
      in if r < 1 / 2 then f
         else if 1 / 2 < r then f + 1
         else if even f then f else f + 1)"

text \<open>
  Rounding of the magnitude \<open>m \<ge> 0\<close> with sign \<open>s\<close> into a format: the quantum is fixed
  by the exponent of \<open>m\<close>, not below the smallest exponent of the format (gradual
  underflow), and a rounded magnitude whose exponent exceeds the largest exponent of the
  format is an infinity.
\<close>

definition round_fl :: "fmt \<Rightarrow> bool \<Rightarrow> rat \<Rightarrow> fl" where
  "round_fl F s m =
     (if m = 0 then Num s 0
      else let e = max (ilog2 m) (emin F);
               q = pow2 (e - int (prec F) + 1);
               v = of_int (rne (m / q)) * q
           in if v \<noteq> 0 \<and> emax F < ilog2 v then Infty s else Num s v)"

fun val :: "bool \<Rightarrow> rat \<Rightarrow> rat" where
  "val s m = (if s then - m else m)"

fun fl_neg :: "fl \<Rightarrow> fl" where
  "fl_neg (Num s m) = Num (\<not> s) m"
| "fl_neg (Infty s) = Infty (\<not> s)"
| "fl_neg NaN = NaN"

fun fl_add :: "fmt \<Rightarrow> fl \<Rightarrow> fl \<Rightarrow> fl" where
  "fl_add F (Num s m) (Num t k) =
     (let x = val s m + val t k
      in if x = 0 then Num (s \<and> t) 0 else round_fl F (x < 0) \<bar>x\<bar>)"
| "fl_add F (Num s m) (Infty t) = Infty t"
| "fl_add F (Infty s) (Num t k) = Infty s"
| "fl_add F (Infty s) (Infty t) = (if s = t then Infty s else NaN)"
| "fl_add F NaN b = NaN"
| "fl_add F a NaN = NaN"

definition fl_sub :: "fmt \<Rightarrow> fl \<Rightarrow> fl \<Rightarrow> fl" where
  "fl_sub F a b = fl_add F a (fl_neg b)"

fun fl_mul :: "fmt \<Rightarrow> fl \<Rightarrow> fl \<Rightarrow> fl" where
  "fl_mul F (Num s m) (Num t k) = round_fl F (s \<noteq> t) (m * k)"
| "fl_mul F (Num s m) (Infty t) = (if m = 0 then NaN else Infty (s \<noteq> t))"
| "fl_mul F (Infty s) (Num t k) = (if k = 0 then NaN else Infty (s \<noteq> t))"
| "fl_mul F (Infty s) (Infty t) = Infty (s \<noteq> t)"
| "fl_mul F NaN b = NaN"
| "fl_mul F a NaN = NaN"

fun fl_div :: "fmt \<Rightarrow> fl \<Rightarrow> fl \<Rightarrow> fl" where
  "fl_div F (Num s m) (Num t k) =
     (if k = 0 then (if m = 0 then NaN else Infty (s \<noteq> t))
      else round_fl F (s \<noteq> t) (m / k))"
| "fl_div F (Num s m) (Infty t) = Num (s \<noteq> t) 0"
| "fl_div F (Infty s) (Num t k) = Infty (s \<noteq> t)"
| "fl_div F (Infty s) (Infty t) = NaN"
| "fl_div F NaN b = NaN"
| "fl_div F a NaN = NaN"

fun fl_lt :: "fl \<Rightarrow> fl \<Rightarrow> bool" where
  "fl_lt (Num s m) (Num t k) = (val s m < val t k)"
| "fl_lt (Num s m) (Infty t) = (\<not> t)"
| "fl_lt (Infty s) (Num t k) = s"
| "fl_lt (Infty s) (Infty t) = (s \<and> \<not> t)"
| "fl_lt NaN b = False"
| "fl_lt a NaN = False"

fun fl_eq :: "fl \<Rightarrow> fl \<Rightarrow> bool" where
  "fl_eq (Num s m) (Num t k) = (val s m = val t k)"
| "fl_eq (Infty s) (Infty t) = (s = t)"
| "fl_eq (Num s m) (Infty t) = False"
| "fl_eq (Infty s) (Num t k) = False"
| "fl_eq NaN b = False"
| "fl_eq a NaN = False"

definition fl_le :: "fl \<Rightarrow> fl \<Rightarrow> bool" where
  "fl_le a b = (fl_lt a b \<or> fl_eq a b)"

fun is_zero :: "fl \<Rightarrow> bool" where
  "is_zero (Num s m) = (m = 0)"
| "is_zero (Infty s) = False"
| "is_zero NaN = False"

fun is_nan :: "fl \<Rightarrow> bool" where
  "is_nan NaN = True"
| "is_nan (Num s m) = False"
| "is_nan (Infty s) = False"

definition fl_of_int :: "fmt \<Rightarrow> int \<Rightarrow> fl" where
  "fl_of_int F i = round_fl F (i < 0) (of_int \<bar>i\<bar>)"

definition fl_of_rat :: "fmt \<Rightarrow> rat \<Rightarrow> fl" where
  "fl_of_rat F x = round_fl F (x < 0) \<bar>x\<bar>"

fun fl_cvt :: "fmt \<Rightarrow> fl \<Rightarrow> fl" where
  "fl_cvt F (Num s m) = round_fl F s m"
| "fl_cvt F (Infty s) = Infty s"
| "fl_cvt F NaN = NaN"

text \<open>
  The square root is an operation of IEEE 754 and is rounded correctly: the integer
  square root of the scaled magnitude, one digit longer than the format's precision, and
  a half added when it is inexact, round as the square root itself does.
\<close>

fun isqrt_bits :: "int \<Rightarrow> nat \<Rightarrow> int \<Rightarrow> int" where
  "isqrt_bits N 0 r = r"
| "isqrt_bits N (Suc k) r =
     isqrt_bits N k (if (r + 2 ^ k) * (r + 2 ^ k) \<le> N then r + 2 ^ k else r)"

fun fl_sqrt :: "fmt \<Rightarrow> fl \<Rightarrow> fl" where
  "fl_sqrt F (Num s m) =
     (if m = 0 then Num s 0
      else if s then NaN
      else let t = int (prec F) - ilog2 m div 2;
               x = m * pow2 (2 * t);
               r = isqrt_bits \<lfloor>x\<rfloor> (prec F + 1) 0;
               y = (if of_int (r * r) = x then of_int r else of_int r + 1 / 2)
           in round_fl F False (y * pow2 (- t)))"
| "fl_sqrt F (Infty s) = (if s then NaN else Infty False)"
| "fl_sqrt F NaN = NaN"

text \<open>
  The arithmetic of the compiled module: \<^verbatim>\<open>float\<close> is binary32, \<^verbatim>\<open>double\<close> is
  binary64, every operation is rounded once to the format of its type.
\<close>

definition ieee :: "(fl, fl) arith" where
  "ieee = \<lparr>fadd = fl_add binary32, fsub = fl_sub binary32, fmul = fl_mul binary32,
           fdiv = fl_div binary32, flt = fl_lt, feq = fl_eq, i2f = fl_of_int binary32,
           finf = Infty False, f2d = fl_cvt binary64, d2f = fl_cvt binary32,
           dadd = fl_add binary64, dsub = fl_sub binary64, dmul = fl_mul binary64,
           ddiv = fl_div binary64, dneg = fl_neg, deq = fl_eq,
           i2d = fl_of_int binary64, dlit = fl_of_rat binary64\<rparr>"

subsection \<open>The C library\<close>

text \<open>
  \<^verbatim>\<open>log\<close> and \<open>pow\<close> are not operations of IEEE 754 and the C standard does not fix
  their rounding.  Theorems about the module hold for every \<open>'d libm\<close>.  Where a closed
  evaluation needs one, it uses \<open>libm_ref\<close>: the correctly rounded square root, and for
  \<^verbatim>\<open>log\<close> and \<^verbatim>\<open>pow\<close> only the values that are exact (the special values of
  Annex F of the C standard, \<open>log 1 = 0\<close>, and \<open>pow x 0.5\<close> for \<open>x\<close> the square of an
  integer below \<open>2^32\<close>).  At every other argument \<open>libm_ref\<close> is left unspecified.
\<close>

fun log_exact :: "fl \<Rightarrow> fl" where
  "log_exact NaN = NaN"
| "log_exact (Infty s) = (if s then NaN else Infty False)"
| "log_exact (Num s m) =
     (if m = 0 then Infty True else if s then NaN else if m = 1 then Num False 0 else undefined)"

fun pow_exact :: "fl \<Rightarrow> fl \<Rightarrow> fl" where
  "pow_exact (Num s m) (Num t e) =
     (let r = isqrt_bits \<lfloor>m\<rfloor> 32 0
      in if \<not> s \<and> \<not> t \<and> e = 1 / 2 \<and> 0 < m \<and> of_int (r * r) = m then Num False (of_int r)
         else undefined)"
| "pow_exact x y = undefined"

definition libm_ref :: "fl libm" where
  "libm_ref = \<lparr>lm_sqrt = fl_sqrt binary64, lm_log = log_exact, lm_pow = pow_exact\<rparr>"

section \<open>Memory\<close>

text \<open>
  The entry points receive pointers into the linear memory of the module.  Memory is a
  total map from cell addresses to \<^verbatim>\<open>float\<close> values, one cell per 4-byte element; a
  pointer is the address of a cell, and \<^verbatim>\<open>p[i]\<close> is the cell \<open>p + i\<close>.  Each function
  returns the memory it leaves behind, so that a write through the output pointer is
  seen by every later read, also when the buffers overlap.  The element count \<open>n\<close> is
  a C \<^verbatim>\<open>int\<close>; a loop \<^verbatim>\<open>for (i = a; i < n; i++)\<close> runs over \<open>[a..<nat n]\<close>, which is
  empty when \<open>n \<le> a\<close>.  The integer expressions on it (\<open>n - 1\<close>, \<open>n - i\<close>, \<open>k + 1\<close>) stay
  within the range of \<^verbatim>\<open>int\<close> whenever a loop body uses them, and are written without
  wrap-around; the one conversion between signed and unsigned, in \<^verbatim>\<open>arima_setParams\<close>,
  is written out.  The allocation functions \<^verbatim>\<open>createMem\<close> and \<^verbatim>\<open>destroy\<close> only call
  \<^verbatim>\<open>malloc\<close> and \<^verbatim>\<open>free\<close> and are not part of the model.
\<close>

type_synonym 'f mem = "nat \<Rightarrow> 'f"

definition load :: "'f mem \<Rightarrow> nat \<Rightarrow> nat \<Rightarrow> 'f list" where
  "load h p n = map (\<lambda>i. h (p + i)) [0..<n]"

fun store :: "nat \<Rightarrow> 'f list \<Rightarrow> 'f mem \<Rightarrow> 'f mem" where
  "store p [] h = h"
| "store p (v # vs) h = store (Suc p) vs (h(p := v))"

section \<open>Linear detrending\<close>

definition detrend_sums :: "('f, 'd) arith \<Rightarrow> 'f mem \<Rightarrow> nat \<Rightarrow> int \<Rightarrow> 'f \<times> 'f \<times> 'f" where
  "detrend_sums A h data n =
     fold (\<lambda>i (x_mean, y_mean, xy_cov).
             (fadd A x_mean (i2f A (int i)),
              fadd A y_mean (h (data + i)),
              fadd A xy_cov (fmul A (i2f A (int i)) (h (data + i)))))
       [0..<nat n] (d2f A (dlit A 0), d2f A (dlit A 0), d2f A (dlit A 0))"

definition detrend_x_var :: "('f, 'd) arith \<Rightarrow> 'f \<Rightarrow> int \<Rightarrow> 'f" where
  "detrend_x_var A x_mean n =
     fold (\<lambda>i x_var.
             fadd A x_var (fmul A (fsub A (i2f A (int i)) x_mean) (fsub A (i2f A (int i)) x_mean)))
       [0..<nat n] (d2f A (dlit A 0))"

text \<open>The fitted line: slope and intercept, as the function computes them.\<close>

definition detrend_line :: "('f, 'd) arith \<Rightarrow> 'f mem \<Rightarrow> nat \<Rightarrow> int \<Rightarrow> 'f \<times> 'f" where
  "detrend_line A h data n =
     (let (x_sum, y_sum, xy_sum) = detrend_sums A h data n;
          x_mean = fdiv A x_sum (i2f A n);
          y_mean = fdiv A y_sum (i2f A n);
          xy_cov = fdiv A xy_sum (i2f A n);
          x_var = detrend_x_var A x_mean n;
          slope = fdiv A (fsub A xy_cov (fmul A x_mean y_mean)) x_var;
          intercept = fsub A y_mean (fmul A slope x_mean)
      in (slope, intercept))"

definition linear_detrend :: "('f, 'd) arith \<Rightarrow> nat \<Rightarrow> nat \<Rightarrow> int \<Rightarrow> 'f mem \<Rightarrow> 'f mem" where
  "linear_detrend A data result n h =
     (let (slope, intercept) = detrend_line A h data n
      in fold (\<lambda>i h. h(result + i :=
                 fsub A (h (data + i)) (fadd A (fmul A slope (i2f A (int i))) intercept)))
           [0..<nat n] h)"

section \<open>ARMA(1,1) estimation\<close>

definition series_mean :: "('f, 'd) arith \<Rightarrow> 'f mem \<Rightarrow> nat \<Rightarrow> int \<Rightarrow> 'f" where
  "series_mean A h data n =
     fdiv A (fold (\<lambda>i mu. fadd A mu (h (data + i))) [0..<nat n] (d2f A (dlit A 0))) (i2f A n)"

text \<open>
  The one-step residual \<^verbatim>\<open>data[i] - mu - phi * data[i-1] - theta * (data[i-1] - mu)\<close>,
  for \<open>i \<ge> 1\<close>.
\<close>

definition arma_error :: "('f, 'd) arith \<Rightarrow> 'f mem \<Rightarrow> nat \<Rightarrow> 'f \<Rightarrow> 'f \<Rightarrow> 'f \<Rightarrow> nat \<Rightarrow> 'f" where
  "arma_error A h data mu phi theta i =
     fsub A (fsub A (fsub A (h (data + i)) mu) (fmul A phi (h (data + i - 1))))
            (fmul A theta (fsub A (h (data + i - 1)) mu))"

definition arma_sums ::
  "('f, 'd) arith \<Rightarrow> 'f mem \<Rightarrow> nat \<Rightarrow> int \<Rightarrow> 'f \<Rightarrow> 'f \<Rightarrow> 'f \<Rightarrow> 'f \<times> 'f \<times> 'f" where
  "arma_sums A h data n mu phi theta =
     fold (\<lambda>i (sum_xy, sum_x_sq, sum_error_sq).
             let error = arma_error A h data mu phi theta i
             in (fadd A sum_xy (fmul A (h (data + i - 1)) error),
                 fadd A sum_x_sq (fmul A (h (data + i - 1)) (h (data + i - 1))),
                 fadd A sum_error_sq (fmul A error error)))
       [1..<nat n] (d2f A (dlit A 0), d2f A (dlit A 0), d2f A (dlit A 0))"

text \<open>One pass of the update loop: the new \<open>(phi, theta)\<close> from the old.\<close>

definition arma_update ::
  "('f, 'd) arith \<Rightarrow> 'f mem \<Rightarrow> nat \<Rightarrow> int \<Rightarrow> 'f \<Rightarrow> 'f \<times> 'f \<Rightarrow> 'f \<times> 'f" where
  "arma_update A h data n mu p =
     (let (sum_xy, sum_x_sq, sum_error_sq) = arma_sums A h data n mu (fst p) (snd p);
          phi = fdiv A sum_xy sum_x_sq;
          theta = fdiv A (fsub A sum_error_sq (fmul A phi sum_xy)) (i2f A (n - 1))
      in (phi, theta))"

definition diff_norm :: "('f, 'd) arith \<Rightarrow> 'd libm \<Rightarrow> 'f \<times> 'f \<Rightarrow> 'f \<times> 'f \<Rightarrow> 'f" where
  "diff_norm A L prev p =
     (let diff_phi = fsub A (fst p) (fst prev);
          diff_theta = fsub A (snd p) (snd prev)
      in d2f A (lm_sqrt L (f2d A (fadd A (fmul A diff_phi diff_phi)
                                          (fmul A diff_theta diff_theta)))))"

definition MAX_ITERATIONS :: nat where
  "MAX_ITERATIONS = 1000"

definition TOLERANCE :: "('f, 'd) arith \<Rightarrow> 'f" where
  "TOLERANCE A = d2f A (dlit A (1 / 1000000))"

text \<open>
  The outcome of the update loop: the parameters, the number of passes through the loop
  body, and whether the loop was left through \<^verbatim>\<open>break\<close> (in which case the function
  prints that number).
\<close>

record 'f fit =
  fit_params :: "'f \<times> 'f"
  fit_passes :: nat
  fit_converged :: bool

function fit_loop ::
  "('f, 'd) arith \<Rightarrow> 'd libm \<Rightarrow> 'f mem \<Rightarrow> nat \<Rightarrow> int \<Rightarrow> 'f \<Rightarrow> nat \<Rightarrow> 'f \<times> 'f \<Rightarrow> 'f fit" where
  "fit_loop A L h data n mu iteration p =
     (if iteration < MAX_ITERATIONS then
        let p' = arma_update A h data n mu p
        in if flt A (diff_norm A L p p') (TOLERANCE A)
           then \<lparr>fit_params = p', fit_passes = iteration + 1, fit_converged = True\<rparr>
           else fit_loop A L h data n mu (iteration + 1) p'
      else \<lparr>fit_params = p, fit_passes = iteration, fit_converged = False\<rparr>)"
  by pat_completeness auto
termination
  by (relation "measure (\<lambda>(A, L, h, data, n, mu, iteration, p). MAX_ITERATIONS - iteration)") auto

declare fit_loop.simps [simp del]

text \<open>
  The parameters after \<open>j\<close> passes that did not leave the loop, and the convergence
  test of the pass after them.
\<close>

definition fit_iterate ::
  "('f, 'd) arith \<Rightarrow> 'f mem \<Rightarrow> nat \<Rightarrow> int \<Rightarrow> 'f \<Rightarrow> 'f \<times> 'f \<Rightarrow> nat \<Rightarrow> 'f \<times> 'f" where
  "fit_iterate A h data n mu p j = (arma_update A h data n mu ^^ j) p"

definition fit_test ::
  "('f, 'd) arith \<Rightarrow> 'd libm \<Rightarrow> 'f mem \<Rightarrow> nat \<Rightarrow> int \<Rightarrow> 'f \<Rightarrow> 'f \<times> 'f \<Rightarrow> nat \<Rightarrow> bool" where
  "fit_test A L h data n mu p j =
     flt A (diff_norm A L (fit_iterate A h data n mu p j) (fit_iterate A h data n mu p (Suc j)))
       (TOLERANCE A)"

definition arma_predict ::
  "('f, 'd) arith \<Rightarrow> nat \<Rightarrow> nat \<Rightarrow> int \<Rightarrow> 'f \<Rightarrow> 'f \<Rightarrow> 'f \<Rightarrow> 'f mem \<Rightarrow> 'f mem" where
  "arma_predict A data prediction n mu phi theta h =
     fold (\<lambda>i h. h(prediction + i :=
             fadd A (fadd A mu (fmul A phi (h (data + i - 1))))
                    (fmul A theta (arma_error A h data mu phi theta i))))
       [1..<nat n] h"

text \<open>
  \<^verbatim>\<open>arima_autoParams\<close> returns the memory and what it printed: the number of passes
  when the loop converged, nothing otherwise.
\<close>

definition arima_fit :: "('f, 'd) arith \<Rightarrow> 'd libm \<Rightarrow> nat \<Rightarrow> int \<Rightarrow> 'f mem \<Rightarrow> 'f fit" where
  "arima_fit A L data n h =
     fit_loop A L h data n (series_mean A h data n) 0
       (d2f A (dlit A (3 / 10)), d2f A (dneg A (dlit A (1 / 5))))"

definition arima_autoParams ::
  "('f, 'd) arith \<Rightarrow> 'd libm \<Rightarrow> nat \<Rightarrow> nat \<Rightarrow> int \<Rightarrow> 'f mem \<Rightarrow> 'f mem \<times> nat option" where
  "arima_autoParams A L data prediction n h =
     (let mu = series_mean A h data n;
          ft = arima_fit A L data n h;
          (phi, theta) = fit_params ft
      in (arma_predict A data prediction n mu phi theta h,
          if fit_converged ft then Some (fit_passes ft) else None))"

text \<open>
  \<^verbatim>\<open>int n = m / sizeof(data[0])\<close>: the operand \<^verbatim>\<open>sizeof\<close> has the unsigned type
  \<^verbatim>\<open>size_t\<close>, 32 bits wide in the module's target, so \<open>m\<close> is converted to that type
  before the division; the quotient is below \<open>2^30\<close> and converts back unchanged.
\<close>

definition element_count :: "int \<Rightarrow> int" where
  "element_count m = (m mod 2 ^ 32) div 4"

text \<open>The quotient of C's signed division, which truncates towards zero.\<close>

definition c_div :: "int \<Rightarrow> int \<Rightarrow> int" where
  "c_div a b = sgn a * sgn b * (\<bar>a\<bar> div \<bar>b\<bar>)"

definition arima_setParams ::
  "('f, 'd) arith \<Rightarrow> nat \<Rightarrow> nat \<Rightarrow> int \<Rightarrow> 'f mem \<Rightarrow> 'f mem" where
  "arima_setParams A data prediction m h =
     (let n = element_count m;
          phi = d2f A (dlit A (1 / 2));
          theta = d2f A (dlit A (1 / 5));
          mu = series_mean A h data n
      in arma_predict A data prediction n mu phi theta h)"

section \<open>Autocorrelation\<close>

definition acf_mean :: "('f, 'd) arith \<Rightarrow> 'f mem \<Rightarrow> nat \<Rightarrow> int \<Rightarrow> 'f" where
  "acf_mean A h data n =
     fdiv A (fold (\<lambda>i mean. fadd A mean (h (data + i))) [0..<nat n] (i2f A 0)) (i2f A n)"

text \<open>
  The autocovariance sum of lag \<open>i\<close>:
  \<^verbatim>\<open>for (j = i; j < n; j++) ac += (data[j] - mean) * (data[j - i] - mean)\<close>.
\<close>

definition acf_ac :: "('f, 'd) arith \<Rightarrow> 'f mem \<Rightarrow> nat \<Rightarrow> int \<Rightarrow> 'f \<Rightarrow> nat \<Rightarrow> 'f" where
  "acf_ac A h data n mean i =
     fold (\<lambda>j ac. fadd A ac (fmul A (fsub A (h (data + j)) mean) (fsub A (h (data + (j - i))) mean)))
       [i..<nat n] (i2f A 0)"

definition acf_var :: "('f, 'd) arith \<Rightarrow> 'f mem \<Rightarrow> nat \<Rightarrow> int \<Rightarrow> 'f \<Rightarrow> 'f" where
  "acf_var A h data n mean =
     fdiv A (fold (\<lambda>i var. fadd A var (fmul A (fsub A (h (data + i)) mean) (fsub A (h (data + i)) mean)))
               [0..<nat n] (i2f A 0))
            (i2f A n)"

definition acf :: "('f, 'd) arith \<Rightarrow> nat \<Rightarrow> nat \<Rightarrow> int \<Rightarrow> 'f mem \<Rightarrow> 'f mem" where
  "acf A data result n h =
     (let mean = acf_mean A h data n;
          var = acf_var A h data n mean;
          h1 = fold (\<lambda>i h. h(result + i :=
                       fdiv A (acf_ac A h data n mean i) (fmul A (i2f A (n - int i)) var)))
                 [0..<nat n] h
      in h1(result := fdiv A (h1 result) (i2f A 2)))"

section \<open>Partial autocorrelation with order selection\<close>

text \<open>
  \<^verbatim>\<open>pacf\<close> works on three local arrays of length \<open>n\<close>: \<open>r\<close>, a copy of the input made
  before anything is written, and \<open>phi\<close> and \<open>aic\<close>, which start uninitialised.  The
  accumulation \<^verbatim>\<open>num += r[i-k-1] * y\<close> starts at \<open>i = k\<close>, so in every order \<open>k\<close> its
  first read is \<^verbatim>\<open>r[-1]\<close>, the cell below the array.  What that cell and the
  uninitialised arrays hold is not fixed by the program; the model takes it as a
  parameter: \<open>below_r pass k\<close> is the value found at \<^verbatim>\<open>r[-1]\<close> in order \<open>k\<close> of the
  first (\<open>pass = 1\<close>) or second (\<open>pass = 2\<close>) loop.
\<close>

record 'f indet =
  below_r :: "nat \<Rightarrow> nat \<Rightarrow> 'f"
  init_phi :: "nat \<Rightarrow> 'f"
  init_aic :: "nat \<Rightarrow> 'f"

text \<open>
  The partial residual
  \<^verbatim>\<open>y = r[i]; for (j = 0; j < k; j++) y -= phi[j] * r[i-j-1]\<close>, for \<open>i \<ge> k\<close>.
\<close>

definition pacf_resid :: "('f, 'd) arith \<Rightarrow> (nat \<Rightarrow> 'f) \<Rightarrow> (nat \<Rightarrow> 'f) \<Rightarrow> nat \<Rightarrow> nat \<Rightarrow> 'f" where
  "pacf_resid A r phi k i =
     fold (\<lambda>j y. fsub A y (fmul A (phi j) (r (i - j - 1)))) [0..<k] (r i)"

definition pacf_num_den ::
  "('f, 'd) arith \<Rightarrow> (nat \<Rightarrow> 'f) \<Rightarrow> 'f \<Rightarrow> (nat \<Rightarrow> 'f) \<Rightarrow> nat \<Rightarrow> int \<Rightarrow> 'f \<times> 'f" where
  "pacf_num_den A r below phi k n =
     fold (\<lambda>i (num, den).
             let y = pacf_resid A r phi k i
             in (fadd A num (fmul A (if i = k then below else r (i - k - 1)) y),
                 fadd A den (fmul A y y)))
       [k..<nat n] (d2f A (dlit A 0), d2f A (dlit A 0))"

text \<open>The guarded division \<^verbatim>\<open>if (den == 0.0) phi[k] = 0.0; else phi[k] = num / den;\<close>\<close>

definition pacf_coef :: "('f, 'd) arith \<Rightarrow> 'f \<times> 'f \<Rightarrow> 'f" where
  "pacf_coef A nd =
     (if deq A (f2d A (snd nd)) (dlit A 0) then d2f A (dlit A 0)
      else fdiv A (fst nd) (snd nd))"

text \<open>
  \<^verbatim>\<open>pacf_result[k] = phi[k];
  for (j = 0; j < k; j++) pacf_result[k] -= phi[j] * pacf_result[k-j-1];\<close>
\<close>

definition pacf_write :: "('f, 'd) arith \<Rightarrow> nat \<Rightarrow> (nat \<Rightarrow> 'f) \<Rightarrow> nat \<Rightarrow> 'f mem \<Rightarrow> 'f mem" where
  "pacf_write A pacf_result phi k h =
     fold (\<lambda>j h. h(pacf_result + k :=
             fsub A (h (pacf_result + k)) (fmul A (phi j) (h (pacf_result + (k - j - 1))))))
       [0..<k] (h(pacf_result + k := phi k))"

text \<open>
  The part of the loop body that both loops of \<^verbatim>\<open>pacf\<close> share (the second repeats the
  text of the first): the coefficient of order \<open>k\<close> and the entry \<open>k\<close> of the output.
\<close>

definition pacf_order ::
  "('f, 'd) arith \<Rightarrow> (nat \<Rightarrow> 'f) \<Rightarrow> 'f \<Rightarrow> nat \<Rightarrow> int \<Rightarrow> nat \<Rightarrow>
     (nat \<Rightarrow> 'f) \<times> 'f mem \<Rightarrow> (nat \<Rightarrow> 'f) \<times> 'f mem" where
  "pacf_order A r below pacf_result n k s =
     (let phi = (fst s)(k := pacf_coef A (pacf_num_den A r below (fst s) k n))
      in (phi, pacf_write A pacf_result phi k (snd s)))"

text \<open>
  The residual sum of squares of order \<open>m\<close>:
  \<^verbatim>\<open>for (i = m; i < n; i++) { y = r[i]; for (j = 1; j <= m; j++) y -= phi[j-1] * r[i-j];
  rss += y * y; }\<close>
\<close>

definition pacf_rss :: "('f, 'd) arith \<Rightarrow> (nat \<Rightarrow> 'f) \<Rightarrow> (nat \<Rightarrow> 'f) \<Rightarrow> nat \<Rightarrow> int \<Rightarrow> 'f" where
  "pacf_rss A r phi m n =
     fold (\<lambda>i rss.
             let y = fold (\<lambda>j y. fsub A y (fmul A (phi (j - 1)) (r (i - j)))) [1..<m + 1] (r i)
             in fadd A rss (fmul A y y))
       [m..<nat n] (d2f A (dlit A 0))"

text \<open>\<^verbatim>\<open>float aic_val = log(rss/n) + 2.0 * (float)m / (float)n;\<close>\<close>

definition aic_score :: "('f, 'd) arith \<Rightarrow> 'd libm \<Rightarrow> 'f \<Rightarrow> nat \<Rightarrow> int \<Rightarrow> 'f" where
  "aic_score A L rss m n =
     d2f A (dadd A (lm_log L (f2d A (fdiv A rss (i2f A n))))
                   (ddiv A (dmul A (dlit A 2) (f2d A (i2f A (int m)))) (f2d A (i2f A n))))"

record 'f pacf_state =
  phi :: "nat \<Rightarrow> 'f"
  aic :: "nat \<Rightarrow> 'f"
  min_aic :: 'f
  max_lag :: nat
  heap :: "'f mem"

text \<open>The body of the first loop, for the order \<open>k\<close>.\<close>

definition explore_order ::
  "('f, 'd) arith \<Rightarrow> 'd libm \<Rightarrow> 'f indet \<Rightarrow> (nat \<Rightarrow> 'f) \<Rightarrow> nat \<Rightarrow> int \<Rightarrow> nat \<Rightarrow>
     'f pacf_state \<Rightarrow> 'f pacf_state" where
  "explore_order A L U r pacf_result n k s =
     (let (phi', h') = pacf_order A r (below_r U 1 k) pacf_result n k (phi s, heap s);
          aic_val = aic_score A L (pacf_rss A r phi' (k + 1) n) (k + 1) n;
          s' = s\<lparr>phi := phi', heap := h', aic := (aic s)(k := aic_val)\<rparr>
      in if flt A aic_val (min_aic s) then s'\<lparr>min_aic := aic_val, max_lag := k\<rparr> else s')"

text \<open>The state of the first loop after the orders \<open>0, \<dots>, m - 1\<close>.\<close>

definition explore_steps ::
  "('f, 'd) arith \<Rightarrow> 'd libm \<Rightarrow> 'f indet \<Rightarrow> nat \<Rightarrow> nat \<Rightarrow> int \<Rightarrow> 'f mem \<Rightarrow> nat \<Rightarrow>
     'f pacf_state" where
  "explore_steps A L U x pacf_result n h m =
     fold (explore_order A L U (\<lambda>i. h (x + i)) pacf_result n) [0..<m]
       \<lparr>phi = init_phi U, aic = init_aic U, min_aic = finf A, max_lag = 0, heap = h\<rparr>"

definition pacf_explore ::
  "('f, 'd) arith \<Rightarrow> 'd libm \<Rightarrow> 'f indet \<Rightarrow> nat \<Rightarrow> nat \<Rightarrow> int \<Rightarrow> 'f mem \<Rightarrow> 'f pacf_state" where
  "pacf_explore A L U x pacf_result n h = explore_steps A L U x pacf_result n h (nat n)"

text \<open>
  \<^verbatim>\<open>pacf\<close> returns the memory and the order it printed.
\<close>

definition pacf ::
  "('f, 'd) arith \<Rightarrow> 'd libm \<Rightarrow> 'f indet \<Rightarrow> nat \<Rightarrow> nat \<Rightarrow> int \<Rightarrow> 'f mem \<Rightarrow> 'f mem \<times> nat" where
  "pacf A L U x pacf_result n h =
     (let s = pacf_explore A L U x pacf_result n h;
          (phi2, h2) = fold (\<lambda>k. pacf_order A (\<lambda>i. h (x + i)) (below_r U 2 k) pacf_result n k)
                         [0..<max_lag s + 1] (phi s, heap s)
      in (h2, max_lag s))"

section \<open>Box-Cox transform\<close>

definition boxcox_transform ::
  "('f, 'd) arith \<Rightarrow> 'd libm \<Rightarrow> nat \<Rightarrow> nat \<Rightarrow> int \<Rightarrow> 'f mem \<Rightarrow> 'f mem" where
  "boxcox_transform A L data result n h =
     (let lambda = d2f A (dlit A (1 / 2))
      in fold (\<lambda>i h. h(result + i :=
                 (if feq A lambda (i2f A 0) then d2f A (lm_log L (f2d A (h (data + i))))
                  else d2f A (ddiv A (dsub A (lm_pow L (f2d A (h (data + i))) (f2d A lambda))
                                             (i2d A 1))
                                     (f2d A lambda)))))
           [0..<nat n] h)"

section \<open>Sample inputs\<close>

text \<open>
  Memories and parameters for closed evaluations: a memory of zeros, series stored from
  cell 0 on, and zeros for the cells whose content \<^verbatim>\<open>pacf\<close> does not fix.
\<close>

definition zeros :: "fl mem" where
  "zeros = (\<lambda>_. Num False 0)"

definition junk0 :: "fl indet" where
  "junk0 = \<lparr>below_r = (\<lambda>_ _. Num False 0), init_phi = (\<lambda>_. Num False 0),
            init_aic = (\<lambda>_. Num False 0)\<rparr>"

definition line_series :: "fl mem" where
  "line_series = store 0 [Num False 0, Num False 1] zeros"

definition spike_series :: "fl mem" where
  "spike_series =
     store 0 [Num False 0, Num False 0, Num False 0, Num False 0, Num False 0, Num False 1] zeros"

definition ramp_series :: "fl mem" where
  "ramp_series = store 0 [Num False 1, Num False 2, Num False 3, Num False 4, Num False 5] zeros"

definition big_series :: "fl mem" where
  "big_series = store 0 [Num False (2 ^ 64), Num False (2 ^ 64)] zeros"

definition pair_series :: "fl mem" where
  "pair_series = store 0 [Num False 1, Num False 3] zeros"

definition single_series :: "fl mem" where
  "single_series = store 0 [Num False 5] zeros"

definition const_series :: "fl mem" where
  "const_series = store 0 [Num False 1, Num False 1] zeros"

section \<open>Invariant of the order selection\<close>

text \<open>
  After the orders below \<open>m\<close>: no score seen is below \<open>min_aic\<close>, and \<open>min_aic\<close> is
  either still the initial infinity, with \<open>max_lag\<close> still 0, or the score of \<open>max_lag\<close>.
\<close>

definition sel_inv :: "nat \<Rightarrow> fl pacf_state \<Rightarrow> bool" where
  "sel_inv m s \<longleftrightarrow>
     (\<forall>j<m. \<not> fl_lt (aic s j) (min_aic s)) \<and>
     (min_aic s = Infty False \<and> max_lag s = 0 \<or> max_lag s < m \<and> min_aic s = aic s (max_lag s))"

section \<open>Memory lemmas\<close>

lemma image_add_upt: "(\<lambda>i. p + i) ` set [a..<b] = {p + a..<p + (b::nat)}"
  by (auto simp: image_iff intro: bexI [where x = "x - p" for x])

lemma fold_store_frame:
  "a \<notin> (\<lambda>i. p + i) ` set js \<Longrightarrow> fold (\<lambda>i h. h((p::nat) + i := f i h)) js h a = h a"
  by (induction js arbitrary: h) auto

lemma fold_store_at:
  assumes "distinct js" and "i \<in> set js"
  shows "\<exists>h'. (\<forall>a. a \<notin> (\<lambda>j. p + j) ` set js \<longrightarrow> h' a = h a) \<and>
              fold (\<lambda>i h. h((p::nat) + i := f i h)) js h (p + i) = f i h'"
  using assms
proof (induction js arbitrary: h)
  case Nil
  then show ?case by simp
next
  case (Cons x xs)
  let ?h1 = "h(p + x := f x h)"
  show ?case
  proof (cases "i = x")
    case True
    with Cons.prems have "p + i \<notin> (\<lambda>j. p + j) ` set xs" by auto
    then have "fold (\<lambda>i h. h(p + i := f i h)) xs ?h1 (p + i) = ?h1 (p + i)"
      by (rule fold_store_frame)
    with True have "(\<forall>a. a \<notin> (\<lambda>j. p + j) ` set (x # xs) \<longrightarrow> h a = h a) \<and>
        fold (\<lambda>i h. h(p + i := f i h)) (x # xs) h (p + i) = f i h"
      by simp
    then show ?thesis by blast
  next
    case False
    with Cons.prems have "distinct xs" "i \<in> set xs" by auto
    from Cons.IH [OF this, of ?h1] obtain h' where
      h': "\<forall>a. a \<notin> (\<lambda>j. p + j) ` set xs \<longrightarrow> h' a = ?h1 a"
      and v: "fold (\<lambda>i h. h(p + i := f i h)) xs ?h1 (p + i) = f i h'" by blast
    from h' have "\<forall>a. a \<notin> (\<lambda>j. p + j) ` set (x # xs) \<longrightarrow> h' a = h a" by auto
    with v have "(\<forall>a. a \<notin> (\<lambda>j. p + j) ` set (x # xs) \<longrightarrow> h' a = h a) \<and>
        fold (\<lambda>i h. h(p + i := f i h)) (x # xs) h (p + i) = f i h'"
      by simp
    then show ?thesis by blast
  qed
qed

lemma linear_detrend_frame:
  "a \<notin> {result..<result + nat n} \<Longrightarrow> linear_detrend A data result n h a = h a"
  unfolding linear_detrend_def split_def Let_def
  by (rule fold_store_frame) (auto simp: image_add_upt)

lemma arma_predict_frame:
  "a \<notin> {prediction + 1..<prediction + nat n} \<Longrightarrow>
   arma_predict A data prediction n mu ph th h a = h a"
  unfolding arma_predict_def
  by (rule fold_store_frame) (auto simp: image_add_upt)

lemma arima_autoParams_frame:
  "a \<notin> {prediction + 1..<prediction + nat n} \<Longrightarrow>
   fst (arima_autoParams A L data prediction n h) a = h a"
  by (simp add: arima_autoParams_def split_def Let_def arma_predict_frame)

lemma arima_setParams_frame:
  "a \<notin> {prediction + 1..<prediction + nat (element_count m)} \<Longrightarrow>
   arima_setParams A data prediction m h a = h a"
  by (simp add: arima_setParams_def Let_def arma_predict_frame)

lemma acf_frame:
  "a \<notin> {result..<result + nat n} \<Longrightarrow> a \<noteq> result \<Longrightarrow> acf A data result n h a = h a"
proof -
  assume a: "a \<notin> {result..<result + nat n}" "a \<noteq> result"
  have "fold (\<lambda>i h. h(result + i := fdiv A (acf_ac A h data n (acf_mean A h0 data n) i)
                 (fmul A (i2f A (n - int i)) v))) [0..<nat n] h a = h a" for h0 v
    by (rule fold_store_frame) (use a in \<open>auto simp: image_add_upt\<close>)
  with a show ?thesis by (simp add: acf_def Let_def)
qed

lemma boxcox_transform_frame:
  "a \<notin> {result..<result + nat n} \<Longrightarrow> boxcox_transform A L data result n h a = h a"
  unfolding boxcox_transform_def Let_def
  by (rule fold_store_frame) (auto simp: image_add_upt)

lemma fold_store_one_frame:
  "a \<noteq> q \<Longrightarrow> fold (\<lambda>j h. h(q := g j h)) js h a = h a"
  by (induction js arbitrary: h) auto

lemma pacf_write_frame: "a \<noteq> res + k \<Longrightarrow> pacf_write A res ph k h a = h a"
  unfolding pacf_write_def by (subst fold_store_one_frame) auto

lemma pacf_order_frame: "a \<noteq> res + k \<Longrightarrow> snd (pacf_order A r b res n k s) a = snd s a"
  by (simp add: pacf_order_def Let_def pacf_write_frame)

lemma pacf_order_phi_other: "j \<noteq> k \<Longrightarrow> fst (pacf_order A r b res n k s) j = fst s j"
  by (simp add: pacf_order_def Let_def)

lemma explore_order_heap:
  "heap (explore_order A L U r res n k s) = snd (pacf_order A r (below_r U 1 k) res n k (phi s, heap s))"
  by (simp add: explore_order_def Let_def split_def)

lemma explore_order_phi:
  "phi (explore_order A L U r res n k s) = fst (pacf_order A r (below_r U 1 k) res n k (phi s, heap s))"
  by (simp add: explore_order_def Let_def split_def)

lemma explore_fold_frame:
  "a \<notin> (\<lambda>k. res + k) ` set ks \<Longrightarrow>
   heap (fold (explore_order A L U r res n) ks s) a = heap s a"
  by (induction ks arbitrary: s) (auto simp: explore_order_heap pacf_order_frame)

lemma order_fold_frame:
  "a \<notin> (\<lambda>k. res + k) ` set ks \<Longrightarrow>
   snd (fold (\<lambda>k. pacf_order A r (b k) res n k) ks s) a = snd s a"
  by (induction ks arbitrary: s) (auto simp: pacf_order_frame)

lemma max_lag_step:
  "max_lag (explore_order A L U r res n k s) = max_lag s \<or>
   max_lag (explore_order A L U r res n k s) = k"
  by (simp add: explore_order_def Let_def split_def)

lemma max_lag_fold:
  "max_lag (fold (explore_order A L U r res n) ks s) \<in> insert (max_lag s) (set ks)"
proof (induction ks arbitrary: s)
  case Nil
  then show ?case by simp
next
  case (Cons k ks)
  from Cons.IH [of "explore_order A L U r res n k s"] max_lag_step [of A L U r res n k s]
  show ?case by auto
qed

lemma max_lag_explore: "0 < n \<Longrightarrow> max_lag (pacf_explore A L U x res n h) < nat n"
  using max_lag_fold [of A L U "\<lambda>i. h (x + i)" res n "[0..<nat n]"
      "\<lparr>phi = init_phi U, aic = init_aic U, min_aic = finf A, max_lag = 0, heap = h\<rparr>"]
  by (auto simp: pacf_explore_def explore_steps_def)

lemma explore_frame:
  "a \<notin> {res..<res + m} \<Longrightarrow> heap (explore_steps A L U x res n h m) a = h a"
  unfolding explore_steps_def
  by (subst explore_fold_frame) (auto simp: image_add_upt)

lemma pacf_snd: "snd (pacf A L U x res n h) = max_lag (pacf_explore A L U x res n h)"
  by (simp add: pacf_def Let_def split_def)

lemma pacf_second_frame:
  "a \<notin> {res..res + max_lag (pacf_explore A L U x res n h)} \<Longrightarrow>
   fst (pacf A L U x res n h) a = heap (pacf_explore A L U x res n h) a"
  unfolding pacf_def Let_def split_def fst_conv
  by (subst order_fold_frame) (auto simp: image_add_upt)

lemma pacf_frame:
  assumes "0 < n" and "a \<notin> {res..<res + nat n}"
  shows "fst (pacf A L U x res n h) a = h a"
proof -
  have "max_lag (pacf_explore A L U x res n h) < nat n"
    using assms(1) by (rule max_lag_explore)
  with assms(2) have "a \<notin> {res..res + max_lag (pacf_explore A L U x res n h)}" by auto
  then have "fst (pacf A L U x res n h) a = heap (pacf_explore A L U x res n h) a"
    by (rule pacf_second_frame)
  also have "\<dots> = h a"
    unfolding pacf_explore_def using assms(2) by (rule explore_frame)
  finally show ?thesis .
qed

lemma explore_steps_Suc:
  "explore_steps A L U x res n h (Suc m) =
   explore_order A L U (\<lambda>i. h (x + i)) res n m (explore_steps A L U x res n h m)"
  by (simp add: explore_steps_def)

lemma explore_heap_stable_add:
  "k < m \<Longrightarrow>
   heap (explore_steps A L U x res n h (m + d)) (res + k) = heap (explore_steps A L U x res n h m) (res + k)"
  by (induction d) (simp_all add: explore_steps_Suc explore_order_heap pacf_order_frame)

lemma explore_heap_stable:
  "k < m \<Longrightarrow> m \<le> m' \<Longrightarrow>
   heap (explore_steps A L U x res n h m') (res + k) = heap (explore_steps A L U x res n h m) (res + k)"
  using explore_heap_stable_add [of k m A L U x res n h "m' - m"] by simp

lemma explore_phi_stable_add:
  "k < m \<Longrightarrow>
   phi (explore_steps A L U x res n h (m + d)) k = phi (explore_steps A L U x res n h m) k"
  by (induction d) (simp_all add: explore_steps_Suc explore_order_phi pacf_order_phi_other)

lemma explore_phi_stable:
  "k < m \<Longrightarrow> m \<le> m' \<Longrightarrow>
   phi (explore_steps A L U x res n h m') k = phi (explore_steps A L U x res n h m) k"
  using explore_phi_stable_add [of k m A L U x res n h "m' - m"] by simp

lemma explore_order_aic:
  "aic (explore_order A L U r res n k s) =
   (aic s)(k := aic_score A L (pacf_rss A r (phi (explore_order A L U r res n k s)) (k + 1) n) (k + 1) n)"
  by (simp add: explore_order_def Let_def split_def)

lemma explore_aic_stable_add:
  "k < m \<Longrightarrow>
   aic (explore_steps A L U x res n h (m + d)) k = aic (explore_steps A L U x res n h m) k"
  by (induction d) (simp_all add: explore_steps_Suc explore_order_aic)

lemma explore_aic_stable:
  "k < m \<Longrightarrow> m \<le> m' \<Longrightarrow>
   aic (explore_steps A L U x res n h m') k = aic (explore_steps A L U x res n h m) k"
  using explore_aic_stable_add [of k m A L U x res n h "m' - m"] by simp

lemma pacf_rss_cong:
  assumes "\<And>j. j < m \<Longrightarrow> ph j = ph' j"
  shows "pacf_rss A r ph m n = pacf_rss A r ph' m n"
proof -
  have "fold (\<lambda>j y. fsub A y (fmul A (ph (j - 1)) (r (i - j)))) [1..<m + 1] (r i) =
        fold (\<lambda>j y. fsub A y (fmul A (ph' (j - 1)) (r (i - j)))) [1..<m + 1] (r i)" for i
    by (rule fold_cong) (auto simp: assms)
  then show ?thesis by (simp add: pacf_rss_def)
qed

lemma aic_formula:
  assumes "k < nat n"
  shows "aic (pacf_explore A L U x res n h) k =
         aic_score A L (pacf_rss A (\<lambda>i. h (x + i)) (phi (pacf_explore A L U x res n h)) (k + 1) n) (k + 1) n"
proof -
  let ?s = "\<lambda>m. explore_steps A L U x res n h m"
  have "aic (?s (nat n)) k = aic (?s (Suc k)) k"
    using assms by (intro explore_aic_stable) auto
  also have "\<dots> = aic_score A L (pacf_rss A (\<lambda>i. h (x + i)) (phi (?s (Suc k))) (k + 1) n) (k + 1) n"
    by (simp add: explore_steps_Suc explore_order_aic)
  also have "pacf_rss A (\<lambda>i. h (x + i)) (phi (?s (Suc k))) (k + 1) n =
             pacf_rss A (\<lambda>i. h (x + i)) (phi (?s (nat n))) (k + 1) n"
    using assms by (intro pacf_rss_cong explore_phi_stable [symmetric]) auto
  finally show ?thesis by (simp add: pacf_explore_def)
qed

section \<open>IEEE comparison and the selection invariant\<close>

lemma ieee_sel:
  "fadd ieee = fl_add binary32" "fsub ieee = fl_sub binary32" "fmul ieee = fl_mul binary32"
  "fdiv ieee = fl_div binary32" "flt ieee = fl_lt" "feq ieee = fl_eq"
  "i2f ieee = fl_of_int binary32" "finf ieee = Infty False" "f2d ieee = fl_cvt binary64"
  "d2f ieee = fl_cvt binary32" "dadd ieee = fl_add binary64" "dsub ieee = fl_sub binary64"
  "dmul ieee = fl_mul binary64" "ddiv ieee = fl_div binary64" "dneg ieee = fl_neg"
  "deq ieee = fl_eq" "i2d ieee = fl_of_int binary64" "dlit ieee = fl_of_rat binary64"
  by (simp_all add: ieee_def)

lemma fl_lt_NaN_right: "\<not> fl_lt a NaN"
  by (cases a) auto

lemma fl_lt_irrefl: "\<not> fl_lt a a"
  by (cases a) auto

lemma fl_lt_trans: "fl_lt a b \<Longrightarrow> fl_lt b c \<Longrightarrow> fl_lt a c"
  by (cases a; cases b; cases c) (auto split: if_splits)

lemma fl_lt_inf_cases: "\<not> fl_lt a (Infty False) \<Longrightarrow> a = NaN \<or> a = Infty False"
  by (cases a) auto

lemma fl_le_total: "\<not> is_nan a \<Longrightarrow> \<not> is_nan b \<Longrightarrow> \<not> fl_lt a b \<Longrightarrow> fl_le b a"
  by (cases a; cases b) (auto simp: fl_le_def split: if_splits)

lemma explore_order_select:
  "aic (explore_order A L U r res n k s) = (aic s)(k := aic (explore_order A L U r res n k s) k) \<and>
   (if flt A (aic (explore_order A L U r res n k s) k) (min_aic s)
    then min_aic (explore_order A L U r res n k s) = aic (explore_order A L U r res n k s) k \<and>
         max_lag (explore_order A L U r res n k s) = k
    else min_aic (explore_order A L U r res n k s) = min_aic s \<and>
         max_lag (explore_order A L U r res n k s) = max_lag s)"
  by (simp add: explore_order_def Let_def split_def)

lemma sel_inv_step:
  assumes "sel_inv m s"
  shows "sel_inv (Suc m) (explore_order ieee L U r res n m s)"
proof -
  let ?s' = "explore_order ieee L U r res n m s"
  define v where "v = aic ?s' m"
  from explore_order_select [of ieee L U r res n m s] have
    a: "aic ?s' = (aic s)(m := v)" and
    sel: "if fl_lt v (min_aic s) then min_aic ?s' = v \<and> max_lag ?s' = m
          else min_aic ?s' = min_aic s \<and> max_lag ?s' = max_lag s"
    by (simp_all add: ieee_sel v_def)
  show ?thesis
  proof (cases "fl_lt v (min_aic s)")
    case True
    with sel have m: "min_aic ?s' = v" "max_lag ?s' = m" by auto
    have "\<not> fl_lt (aic ?s' j) v" if "j < Suc m" for j
    proof (cases "j = m")
      case True
      then show ?thesis by (simp add: a fl_lt_irrefl)
    next
      case False
      with that have "j < m" by simp
      with assms have "\<not> fl_lt (aic s j) (min_aic s)" by (simp add: sel_inv_def)
      with \<open>fl_lt v (min_aic s)\<close> have "\<not> fl_lt (aic s j) v" using fl_lt_trans by blast
      with False show ?thesis by (simp add: a)
    qed
    with m show ?thesis by (simp add: sel_inv_def a)
  next
    case False
    with sel have m: "min_aic ?s' = min_aic s" "max_lag ?s' = max_lag s" by auto
    have "\<not> fl_lt (aic ?s' j) (min_aic s)" if "j < Suc m" for j
      using that assms False by (cases "j = m") (auto simp: a sel_inv_def)
    moreover from assms have
      "min_aic s = Infty False \<and> max_lag s = 0 \<or>
       max_lag s < Suc m \<and> min_aic s = aic ?s' (max_lag s)"
      by (auto simp: sel_inv_def a)
    ultimately show ?thesis by (simp add: sel_inv_def m)
  qed
qed

lemma sel_inv_steps: "sel_inv m (explore_steps ieee L U x res n h m)"
proof (induction m)
  case 0
  show ?case by (simp add: sel_inv_def explore_steps_def ieee_sel)
next
  case (Suc m)
  then show ?case by (simp add: explore_steps_Suc sel_inv_step)
qed

lemma selected_minimal:
  assumes "0 < n" and "k < nat n"
  shows "\<not> fl_lt (aic (pacf_explore ieee L U x res n h) k)
              (aic (pacf_explore ieee L U x res n h) (max_lag (pacf_explore ieee L U x res n h)))"
proof -
  let ?s = "pacf_explore ieee L U x res n h"
  have inv: "sel_inv (nat n) ?s" unfolding pacf_explore_def by (rule sel_inv_steps)
  then have lo: "\<And>j. j < nat n \<Longrightarrow> \<not> fl_lt (aic ?s j) (min_aic ?s)"
    by (simp add: sel_inv_def)
  from inv consider "min_aic ?s = Infty False" "max_lag ?s = 0"
    | "min_aic ?s = aic ?s (max_lag ?s)"
    by (auto simp: sel_inv_def)
  then show ?thesis
  proof cases
    case 1
    from assms have "0 < nat n" by simp
    from lo [OF this] 1 have "aic ?s 0 = NaN \<or> aic ?s 0 = Infty False"
      by (auto dest: fl_lt_inf_cases)
    then show ?thesis
    proof
      assume "aic ?s 0 = NaN"
      with 1 show ?thesis by (simp add: fl_lt_NaN_right)
    next
      assume "aic ?s 0 = Infty False"
      with 1 lo [OF assms(2)] show ?thesis by simp
    qed
  next
    case 2
    with lo [OF assms(2)] show ?thesis by simp
  qed
qed

section \<open>Values written by the loops\<close>

lemma arma_predict_value:
  assumes disj: "{data..<data + nat n} \<inter> {pred..<pred + nat n} = {}"
    and i: "1 \<le> i" "i < nat n"
  shows "arma_predict A data pred n mu ph th h (pred + i) =
         fadd A (fadd A mu (fmul A ph (h (data + i - 1))))
                (fmul A th (arma_error A h data mu ph th i))"
proof -
  let ?f = "\<lambda>i h. fadd A (fadd A mu (fmul A ph (h (data + i - 1))))
                        (fmul A th (arma_error A h data mu ph th i))"
  from i have "distinct [1..<nat n]" "i \<in> set [1..<nat n]" by auto
  from fold_store_at [OF this, of pred h ?f] obtain h' where
    h': "\<forall>a. a \<notin> (\<lambda>j. pred + j) ` set [1..<nat n] \<longrightarrow> h' a = h a"
    and v: "fold (\<lambda>i h. h(pred + i := ?f i h)) [1..<nat n] h (pred + i) = ?f i h'"
    by blast
  have out: "a \<notin> (\<lambda>j. pred + j) ` set [1..<nat n]" if "a \<in> {data..<data + nat n}" for a
    using disj that by (auto simp: image_add_upt)
  from i have "data + i \<in> {data..<data + nat n}" "data + i - 1 \<in> {data..<data + nat n}"
    by auto
  with h' out have "h' (data + i) = h (data + i)" "h' (data + i - 1) = h (data + i - 1)"
    by blast+
  then have "?f i h' = ?f i h" by (simp add: arma_error_def)
  with v show ?thesis by (simp add: arma_predict_def)
qed

lemma acf_ac_cong:
  assumes "\<And>j. j < nat n \<Longrightarrow> h' (data + j) = h (data + j)"
  shows "acf_ac A h' data n mean i = acf_ac A h data n mean i"
  unfolding acf_ac_def
proof (rule fold_cong)
  fix x
  assume "x \<in> set [i..<nat n]"
  then have "x < nat n" "x - i < nat n" by auto
  with assms have "h' (data + x) = h (data + x)" "h' (data + (x - i)) = h (data + (x - i))"
    by blast+
  then show "(\<lambda>ac. fadd A ac (fmul A (fsub A (h' (data + x)) mean) (fsub A (h' (data + (x - i))) mean))) =
             (\<lambda>ac. fadd A ac (fmul A (fsub A (h (data + x)) mean) (fsub A (h (data + (x - i))) mean)))"
    by (simp only:)
qed simp_all

lemma acf_loop_value:
  assumes disj: "{data..<data + nat n} \<inter> {res..<res + nat n} = {}"
    and i: "i < nat n"
  shows "fold (\<lambda>i h. h(res + i := fdiv A (acf_ac A h data n mean i) (fmul A (i2f A (n - int i)) var)))
           [0..<nat n] h (res + i) =
         fdiv A (acf_ac A h data n mean i) (fmul A (i2f A (n - int i)) var)"
proof -
  let ?f = "\<lambda>i h. fdiv A (acf_ac A h data n mean i) (fmul A (i2f A (n - int i)) var)"
  from i have "distinct [0..<nat n]" "i \<in> set [0..<nat n]" by auto
  from fold_store_at [OF this, of res h ?f] obtain h' where
    h': "\<forall>a. a \<notin> (\<lambda>j. res + j) ` set [0..<nat n] \<longrightarrow> h' a = h a"
    and v: "fold (\<lambda>i h. h(res + i := ?f i h)) [0..<nat n] h (res + i) = ?f i h'"
    by blast
  have "h' (data + j) = h (data + j)" if "j < nat n" for j
  proof -
    from that have "data + j \<in> {data..<data + nat n}" by simp
    with disj have "data + j \<notin> (\<lambda>j. res + j) ` set [0..<nat n]"
      by (auto simp: image_add_upt)
    with h' show ?thesis by blast
  qed
  then have "acf_ac A h' data n mean i = acf_ac A h data n mean i"
    by (rule acf_ac_cong)
  with v show ?thesis by simp
qed

lemma acf_value:
  assumes disj: "{data..<data + nat n} \<inter> {res..<res + nat n} = {}"
    and i: "i < nat n"
  shows "acf A data res n h (res + i) =
         (let mean = acf_mean A h data n; var = acf_var A h data n mean;
              q = fdiv A (acf_ac A h data n mean i) (fmul A (i2f A (n - int i)) var)
          in if i = 0 then fdiv A q (i2f A 2) else q)"
proof (cases "i = 0")
  case True
  with acf_loop_value [OF disj i, where A = A and h = h and mean = "acf_mean A h data n"
      and var = "acf_var A h data n (acf_mean A h data n)"]
  show ?thesis by (simp add: acf_def Let_def)
next
  case False
  with acf_loop_value [OF disj i, where A = A and h = h and mean = "acf_mean A h data n"
      and var = "acf_var A h data n (acf_mean A h data n)"]
  show ?thesis by (simp add: acf_def Let_def)
qed

lemma acf_ac_zero_lag:
  "acf_ac A h data n mean 0 =
   fold (\<lambda>i var. fadd A var (fmul A (fsub A (h (data + i)) mean) (fsub A (h (data + i)) mean)))
     [0..<nat n] (i2f A 0)"
  by (simp add: acf_ac_def)

lemma boxcox_value:
  assumes disj: "{data..<data + nat n} \<inter> {res..<res + nat n} = {}"
    and i: "i < nat n"
  shows "boxcox_transform A L data res n h (res + i) =
         (let lambda = d2f A (dlit A (1 / 2))
          in if feq A lambda (i2f A 0) then d2f A (lm_log L (f2d A (h (data + i))))
             else d2f A (ddiv A (dsub A (lm_pow L (f2d A (h (data + i))) (f2d A lambda)) (i2d A 1))
                                (f2d A lambda)))"
proof -
  let ?lam = "d2f A (dlit A (1 / 2))"
  let ?f = "\<lambda>i h. if feq A ?lam (i2f A 0) then d2f A (lm_log L (f2d A (h (data + i))))
             else d2f A (ddiv A (dsub A (lm_pow L (f2d A (h (data + i))) (f2d A ?lam)) (i2d A 1))
                                (f2d A ?lam))"
  from i have "distinct [0..<nat n]" "i \<in> set [0..<nat n]" by auto
  from fold_store_at [OF this, of res h ?f] obtain h' where
    h': "\<forall>a. a \<notin> (\<lambda>j. res + j) ` set [0..<nat n] \<longrightarrow> h' a = h a"
    and v: "fold (\<lambda>i h. h(res + i := ?f i h)) [0..<nat n] h (res + i) = ?f i h'"
    by blast
  from i have "data + i \<in> {data..<data + nat n}" by simp
  with disj have "data + i \<notin> (\<lambda>j. res + j) ` set [0..<nat n]"
    by (auto simp: image_add_upt)
  with h' have "h' (data + i) = h (data + i)" by blast
  then have "?f i h' = ?f i h" by simp
  with v show ?thesis by (simp add: boxcox_transform_def Let_def)
qed

section \<open>The update loop\<close>

lemma fit_iterate_Suc:
  "fit_iterate A h data n mu p (Suc j) = arma_update A h data n mu (fit_iterate A h data n mu p j)"
  by (simp add: fit_iterate_def)

lemma fit_loop_run:
  fixes A :: "('f, 'd) arith"
  assumes "it \<le> MAX_ITERATIONS"
  shows "let ft = fit_loop A L h data n mu it (fit_iterate A h data n mu p it) in
           it \<le> fit_passes ft \<and> fit_passes ft \<le> MAX_ITERATIONS \<and>
           fit_params ft = fit_iterate A h data n mu p (fit_passes ft) \<and>
           (\<forall>j. it \<le> j \<and> Suc j < fit_passes ft \<longrightarrow> \<not> fit_test A L h data n mu p j) \<and>
           (fit_converged ft \<longrightarrow> it < fit_passes ft \<and> fit_test A L h data n mu p (fit_passes ft - 1)) \<and>
           (\<not> fit_converged ft \<longrightarrow> fit_passes ft = MAX_ITERATIONS \<and>
               (\<forall>j. it \<le> j \<and> j < MAX_ITERATIONS \<longrightarrow> \<not> fit_test A L h data n mu p j))"
  using assms
proof (induction "MAX_ITERATIONS - it" arbitrary: it)
  case 0
  then have "it = MAX_ITERATIONS" by simp
  then show ?case by (auto simp: fit_loop.simps [of A L h data n mu MAX_ITERATIONS])
next
  case (Suc d)
  then have lt: "it < MAX_ITERATIONS" by simp
  show ?case
  proof (cases "fit_test A L h data n mu p it")
    case True
    then show ?thesis
      using lt
      by (auto simp: fit_loop.simps [of A L h data n mu it] Let_def fit_test_def fit_iterate_Suc)
  next
    case False
    from Suc.hyps(2) lt have d: "d = MAX_ITERATIONS - Suc it" "Suc it \<le> MAX_ITERATIONS" by simp_all
    have eq: "fit_loop A L h data n mu it (fit_iterate A h data n mu p it) =
              fit_loop A L h data n mu (Suc it) (fit_iterate A h data n mu p (Suc it))"
      using lt False
      by (simp add: fit_loop.simps [of A L h data n mu it] Let_def fit_test_def fit_iterate_Suc)
    let ?ft = "fit_loop A L h data n mu (Suc it) (fit_iterate A h data n mu p (Suc it))"
    from Suc.hyps(1) [OF d] have
      1: "Suc it \<le> fit_passes ?ft" "fit_passes ?ft \<le> MAX_ITERATIONS"
        "fit_params ?ft = fit_iterate A h data n mu p (fit_passes ?ft)" and
      2: "\<And>j. Suc it \<le> j \<Longrightarrow> Suc j < fit_passes ?ft \<Longrightarrow> \<not> fit_test A L h data n mu p j" and
      3: "fit_converged ?ft \<Longrightarrow> Suc it < fit_passes ?ft \<and> fit_test A L h data n mu p (fit_passes ?ft - 1)" and
      4: "\<not> fit_converged ?ft \<Longrightarrow> fit_passes ?ft = MAX_ITERATIONS \<and>
             (\<forall>j. Suc it \<le> j \<and> j < MAX_ITERATIONS \<longrightarrow> \<not> fit_test A L h data n mu p j)"
      unfolding Let_def by blast+
    have cover: "j = it \<or> Suc it \<le> j" if "it \<le> j" for j
      using that by auto
    have a: "it \<le> fit_passes ?ft" using 1(1) by simp
    have b: "\<forall>j. it \<le> j \<and> Suc j < fit_passes ?ft \<longrightarrow> \<not> fit_test A L h data n mu p j"
      using 2 False cover by blast
    have c: "fit_converged ?ft \<longrightarrow> it < fit_passes ?ft \<and> fit_test A L h data n mu p (fit_passes ?ft - 1)"
      using 3 by auto
    have e: "\<not> fit_converged ?ft \<longrightarrow> fit_passes ?ft = MAX_ITERATIONS \<and>
             (\<forall>j. it \<le> j \<and> j < MAX_ITERATIONS \<longrightarrow> \<not> fit_test A L h data n mu p j)"
      using 4 False cover by blast
    show ?thesis
      unfolding eq Let_def using a 1(2) 1(3) b c e by blast
  qed
qed

lemma fit_loop_least:
  fixes A :: "('f, 'd) arith"
  shows "let ft = fit_loop A L h data n mu 0 p;
             conv = (\<exists>j<MAX_ITERATIONS. fit_test A L h data n mu p j)
         in fit_converged ft = conv \<and>
            fit_passes ft = (if conv then Suc (LEAST j. fit_test A L h data n mu p j) else MAX_ITERATIONS) \<and>
            fit_params ft = fit_iterate A h data n mu p (fit_passes ft)"
proof -
  let ?ft = "fit_loop A L h data n mu 0 p"
  let ?T = "fit_test A L h data n mu p"
  have p0: "fit_iterate A h data n mu p 0 = p" by (simp add: fit_iterate_def)
  from fit_loop_run [of 0 A L h data n mu p] have
    1: "fit_passes ?ft \<le> MAX_ITERATIONS" "fit_params ?ft = fit_iterate A h data n mu p (fit_passes ?ft)" and
    2: "\<And>j. Suc j < fit_passes ?ft \<Longrightarrow> \<not> ?T j" and
    3: "fit_converged ?ft \<Longrightarrow> 0 < fit_passes ?ft \<and> ?T (fit_passes ?ft - 1)" and
    4: "\<not> fit_converged ?ft \<Longrightarrow> fit_passes ?ft = MAX_ITERATIONS \<and> (\<forall>j<MAX_ITERATIONS. \<not> ?T j)"
    unfolding Let_def p0 by auto
  show ?thesis
  proof (cases "fit_converged ?ft")
    case True
    from 3 [OF True] have pos: "0 < fit_passes ?ft" and t: "?T (fit_passes ?ft - 1)" by auto
    have "(LEAST j. ?T j) = fit_passes ?ft - 1"
    proof (rule Least_equality)
      show "?T (fit_passes ?ft - 1)" by (rule t)
    next
      fix y assume "?T y"
      with 2 [of y] have "\<not> Suc y < fit_passes ?ft" by blast
      then show "fit_passes ?ft - 1 \<le> y" by simp
    qed
    moreover from pos 1(1) have "fit_passes ?ft - 1 < MAX_ITERATIONS" by simp
    ultimately show ?thesis using True t pos 1(2) unfolding Let_def by auto
  next
    case False
    from 4 [OF False] show ?thesis using False 1(2) unfolding Let_def by auto
  qed
qed

section \<open>Constants of the IEEE arithmetic\<close>

lemma ieee_half: "d2f ieee (dlit ieee (1 / 2)) = Num False (1 / 2)"
  unfolding ieee_sel by code_simp

lemma ieee_round_half_wide: "round_fl binary64 False (1 / 2) = Num False (1 / 2)"
  by code_simp

lemma ieee_half_not_zero: "\<not> fl_eq (Num False (1 / 2)) (fl_of_int binary32 0)"
  by code_simp

lemma ieee_one_wide: "fl_of_int binary64 1 = Num False 1"
  by code_simp

lemma ieee_two: "fl_of_int binary32 2 = Num False 2"
  by code_simp

lemma ieee_round_one: "round_fl binary32 False 1 = Num False 1"
  by code_simp

lemma ieee_div_self: "m \<noteq> 0 \<Longrightarrow> fl_div binary32 (Num s m) (Num s m) = Num False 1"
  by (simp add: ieee_round_one)

lemma ieee_one_half: "fl_div binary32 (Num False 1) (Num False 2) = Num False (1 / 2)"
  by code_simp

lemma fl_mul_NaN_right: "fl_mul F a NaN = NaN"
  by (cases a) auto

text \<open>A quotient with a zero numerator is a zero or NaN, and NaN makes every product NaN.\<close>

lemma ieee_quotient_of_zero:
  assumes "\<not> is_zero (fl_div binary32 (Num s m) d)"
    and "fl_mul binary32 x (fl_div binary32 (Num s m) d) = Num t k"
  shows "m \<noteq> 0"
proof
  assume m: "m = 0"
  show False
  proof (cases d)
    case (Num u j)
    show ?thesis
    proof (cases "j = 0")
      case True
      with assms(2) m Num show ?thesis by (simp add: fl_mul_NaN_right)
    next
      case False
      with assms(1) m Num show ?thesis by (simp add: round_fl_def)
    qed
  next
    case (Infty u)
    with assms(1) m show ?thesis by simp
  next
    case NaN
    with assms(2) show ?thesis by (simp add: fl_mul_NaN_right)
  qed
qed

lemma ieee_zero_guard:
  assumes "is_zero den"
  shows "deq ieee (f2d ieee den) (dlit ieee 0)" and "pacf_coef ieee (num, den) = Num False 0"
proof -
  from assms obtain s where den: "den = Num s 0" by (cases den) auto
  show "deq ieee (f2d ieee den) (dlit ieee 0)"
    by (simp add: den ieee_sel round_fl_def fl_of_rat_def)
  then show "pacf_coef ieee (num, den) = Num False 0"
    by (simp add: pacf_coef_def ieee_sel round_fl_def fl_of_rat_def)
qed

lemma store_below: "a < q \<Longrightarrow> store q ws g a = g a"
  by (induction ws arbitrary: q g) auto

lemma store_at: "i < length vs \<Longrightarrow> store p vs h (p + i) = vs ! i"
proof (induction vs arbitrary: p i h)
  case Nil
  then show ?case by simp
next
  case (Cons v vs)
  show ?case
  proof (cases i)
    case 0
    then show ?thesis by (simp add: store_below)
  next
    case (Suc j)
    with Cons.prems have j: "j < length vs" by simp
    have "store p (v # vs) h (p + i) = store (Suc p) vs (h(p := v)) (Suc p + j)"
      by (simp add: Suc)
    also have "\<dots> = vs ! j" using j by (rule Cons.IH)
    finally show ?thesis by (simp add: Suc)
  qed
qed

section \<open>Linear detrending of an exactly linear series\<close>

text \<open>
  Claim C1 says that for every series of length \<open>n \<ge> 2\<close> that is exactly linear in the
  index, \<^verbatim>\<open>linear_detrend\<close> writes values that are 0 within \<open>1e-4\<close>.  The function
  divides the covariance sum by \<open>n\<close> but not the sum of squared index deviations, so the
  slope it fits is the true slope divided by \<open>n\<close>.  On the series \<open>0, 1\<close> (\<open>n = 2\<close>, slope
  1, intercept 0), where every operation is exact in binary32, it fits the slope \<open>1/2\<close>
  and the intercept \<open>1/4\<close> and writes \<open>-1/4\<close> and \<open>1/4\<close>.
\<close>

theorem linear_detrend_line_residue:
  "detrend_line ieee line_series 0 2 = (Num False (1 / 2), Num False (1 / 4)) \<and>
   load (linear_detrend ieee 0 2 2 line_series) 2 2 = [Num True (1 / 4), Num False (1 / 4)]"
  by code_simp

section \<open>Order selection by AIC\<close>

text \<open>
  Claim C2, as stated, says that the score of the selected order is less than or equal
  to the score of every candidate.  On the series \<open>2^64, 2^64\<close> the sums of order 0
  overflow, its score is NaN, and the comparison with the selected order 1 is false.
\<close>

theorem aic_selection_counterexample:
  "max_lag (pacf_explore ieee libm_ref junk0 0 2 2 big_series) = 1 \<and>
   aic (pacf_explore ieee libm_ref junk0 0 2 2 big_series) 0 = NaN \<and>
   aic (pacf_explore ieee libm_ref junk0 0 2 2 big_series) 1 = Infty True \<and>
   \<not> fl_le (aic (pacf_explore ieee libm_ref junk0 0 2 2 big_series)
             (max_lag (pacf_explore ieee libm_ref junk0 0 2 2 big_series)))
           (aic (pacf_explore ieee libm_ref junk0 0 2 2 big_series) 0)"
  by code_simp

text \<open>
  Claim C2, amended: for every series of length \<open>n \<ge> 1\<close>, \<^verbatim>\<open>pacf\<close> computes for each
  candidate order \<open>k\<close> in \<open>0..n-1\<close> the score \<open>AIC(k) = log(rss/n) + 2 (k+1)/n\<close>, \<open>rss\<close> being
  the residual sum of squares of order \<open>k+1\<close>; the selected order \<open>max_lag\<close>, which the
  function prints, is a candidate, and no candidate has a score strictly below
  \<open>AIC(max_lag)\<close>; so \<open>AIC(max_lag) \<le> AIC(k)\<close> for every candidate \<open>k\<close> whenever neither
  score is NaN.
\<close>

theorem aic_selection:
  "(k < nat n \<longrightarrow>
      aic (pacf_explore ieee L U x res n h) k =
      aic_score ieee L (pacf_rss ieee (\<lambda>i. h (x + i)) (phi (pacf_explore ieee L U x res n h)) (k + 1) n)
        (k + 1) n) \<and>
   snd (pacf ieee L U x res n h) = max_lag (pacf_explore ieee L U x res n h) \<and>
   (0 < n \<and> k < nat n \<longrightarrow>
      max_lag (pacf_explore ieee L U x res n h) < nat n \<and>
      \<not> fl_lt (aic (pacf_explore ieee L U x res n h) k)
              (aic (pacf_explore ieee L U x res n h) (max_lag (pacf_explore ieee L U x res n h))) \<and>
      (\<not> is_nan (aic (pacf_explore ieee L U x res n h) k) \<and>
       \<not> is_nan (aic (pacf_explore ieee L U x res n h) (max_lag (pacf_explore ieee L U x res n h))) \<longrightarrow>
         fl_le (aic (pacf_explore ieee L U x res n h) (max_lag (pacf_explore ieee L U x res n h)))
               (aic (pacf_explore ieee L U x res n h) k)))"
proof (intro conjI impI)
  assume "k < nat n"
  then show "aic (pacf_explore ieee L U x res n h) k =
      aic_score ieee L (pacf_rss ieee (\<lambda>i. h (x + i)) (phi (pacf_explore ieee L U x res n h)) (k + 1) n)
        (k + 1) n"
    by (rule aic_formula)
next
  show "snd (pacf ieee L U x res n h) = max_lag (pacf_explore ieee L U x res n h)"
    by (rule pacf_snd)
next
  assume "0 < n \<and> k < nat n"
  then show "max_lag (pacf_explore ieee L U x res n h) < nat n"
    by (simp add: max_lag_explore)
next
  assume "0 < n \<and> k < nat n"
  then show "\<not> fl_lt (aic (pacf_explore ieee L U x res n h) k)
              (aic (pacf_explore ieee L U x res n h) (max_lag (pacf_explore ieee L U x res n h)))"
    by (simp add: selected_minimal)
next
  assume a: "0 < n \<and> k < nat n"
    and b: "\<not> is_nan (aic (pacf_explore ieee L U x res n h) k) \<and>
       \<not> is_nan (aic (pacf_explore ieee L U x res n h) (max_lag (pacf_explore ieee L U x res n h)))"
  from a have "\<not> fl_lt (aic (pacf_explore ieee L U x res n h) k)
              (aic (pacf_explore ieee L U x res n h) (max_lag (pacf_explore ieee L U x res n h)))"
    by (simp add: selected_minimal)
  with b show "fl_le (aic (pacf_explore ieee L U x res n h) (max_lag (pacf_explore ieee L U x res n h)))
               (aic (pacf_explore ieee L U x res n h) k)"
    by (simp add: fl_le_total)
qed

theorem aic_selection_witness:
  "(1::nat) < nat 2 \<and> (0::int) < 2 \<and>
   \<not> is_nan (aic (pacf_explore ieee libm_ref junk0 0 2 2 zeros) 1) \<and>
   \<not> is_nan (aic (pacf_explore ieee libm_ref junk0 0 2 2 zeros)
                (max_lag (pacf_explore ieee libm_ref junk0 0 2 2 zeros))) \<and>
   fl_le (aic (pacf_explore ieee libm_ref junk0 0 2 2 zeros)
            (max_lag (pacf_explore ieee libm_ref junk0 0 2 2 zeros)))
         (aic (pacf_explore ieee libm_ref junk0 0 2 2 zeros) 1)"
proof -
  have 1: "\<not> is_nan (aic (pacf_explore ieee libm_ref junk0 0 2 2 zeros) 1)"
    by code_simp
  have 2: "\<not> is_nan (aic (pacf_explore ieee libm_ref junk0 0 2 2 zeros)
                (max_lag (pacf_explore ieee libm_ref junk0 0 2 2 zeros)))"
    by code_simp
  have 3: "(1::nat) < nat 2" "(0::int) < 2" by simp_all
  from aic_selection [of 1 2 libm_ref junk0 0 2 zeros] 1 2 3 show ?thesis by blast
qed

section \<open>Termination of the parameter-update loop\<close>

text \<open>
  Claim C3: the update loop of \<^verbatim>\<open>arima_autoParams\<close> runs at most 1000 passes; it
  leaves the loop early exactly when the norm of the change of \<open>(phi, theta)\<close> in one pass,
  as the function computes it, is below the tolerance \<open>1e-6\<close>; the call always returns.
  The loop is a total function by its termination proof.  With \<open>fit_test j\<close> the test at
  the end of pass \<open>j + 1\<close>, the number of passes is one more than the first \<open>j < 1000\<close>
  whose test holds, and 1000 when there is none; the loop is left before pass 1000 exactly
  when a test among the first 999 holds; and the function prints the number of passes
  exactly when a test held.
\<close>

theorem arima_fit_bounded:
  "let mu = series_mean A h data n;
       p = (d2f A (dlit A (3 / 10)), d2f A (dneg A (dlit A (1 / 5))));
       ft = arima_fit A L data n h;
       conv = (\<exists>j<MAX_ITERATIONS. fit_test A L h data n mu p j)
   in MAX_ITERATIONS = 1000 \<and>
      fit_passes ft \<le> 1000 \<and>
      fit_converged ft = conv \<and>
      fit_passes ft = (if conv then Suc (LEAST j. fit_test A L h data n mu p j) else 1000) \<and>
      (fit_passes ft < 1000) = (\<exists>j<999. fit_test A L h data n mu p j) \<and>
      fit_params ft = fit_iterate A h data n mu p (fit_passes ft) \<and>
      snd (arima_autoParams A L data prediction n h) = (if conv then Some (fit_passes ft) else None)"
proof -
  define mu where "mu = series_mean A h data n"
  define p where "p = (d2f A (dlit A (3 / 10)), d2f A (dneg A (dlit A (1 / 5))))"
  define ft where "ft = arima_fit A L data n h"
  let ?T = "fit_test A L h data n mu p"
  define conv where "conv = (\<exists>j<MAX_ITERATIONS. ?T j)"
  have ft: "ft = fit_loop A L h data n mu 0 p"
    by (simp add: ft_def arima_fit_def mu_def p_def)
  from fit_loop_least [of A L h data n mu p] have
    c: "fit_converged ft = conv" and
    ps: "fit_passes ft = (if conv then Suc (LEAST j. ?T j) else MAX_ITERATIONS)" and
    pr: "fit_params ft = fit_iterate A h data n mu p (fit_passes ft)"
    unfolding Let_def ft conv_def by blast+
  have M: "MAX_ITERATIONS = 1000" by (simp add: MAX_ITERATIONS_def)
  have le: "fit_passes ft \<le> 1000"
  proof (cases conv)
    case True
    then obtain j where j: "j < MAX_ITERATIONS" "?T j" unfolding conv_def by blast
    then have "(LEAST j. ?T j) \<le> j" by (intro Least_le)
    with j True ps M show ?thesis by simp
  next
    case False
    with ps M show ?thesis by simp
  qed
  have early: "(fit_passes ft < 1000) = (\<exists>j<999. ?T j)"
  proof
    assume lt: "fit_passes ft < 1000"
    with ps M have conv by (cases conv) auto
    then obtain j where "?T j" unfolding conv_def by blast
    then have "?T (LEAST j. ?T j)" by (rule LeastI)
    moreover from lt ps \<open>conv\<close> have "(LEAST j. ?T j) < 999" by simp
    ultimately show "\<exists>j<999. ?T j" by blast
  next
    assume "\<exists>j<999. ?T j"
    then obtain j where j: "j < 999" "?T j" by blast
    then have l: "(LEAST j. ?T j) \<le> j" by (intro Least_le)
    from j M have conv unfolding conv_def by (intro exI [of _ j]) simp
    with ps l j show "fit_passes ft < 1000" by simp
  qed
  have out: "snd (arima_autoParams A L data prediction n h) = (if conv then Some (fit_passes ft) else None)"
    by (simp add: arima_autoParams_def Let_def split_def ft_def [symmetric] c)
  from M le c ps early pr out show ?thesis
    unfolding Let_def mu_def [symmetric] p_def [symmetric] ft_def [symmetric] conv_def [symmetric]
    by simp
qed

theorem arima_fit_bounded_witness:
  "fit_passes (arima_fit ieee libm_ref 0 2 pair_series) = 2 \<and>
   fit_converged (arima_fit ieee libm_ref 0 2 pair_series) \<and>
   (\<exists>j<MAX_ITERATIONS.
      fit_test ieee libm_ref pair_series 0 2 (series_mean ieee pair_series 0 2)
        (d2f ieee (dlit ieee (3 / 10)), d2f ieee (dneg ieee (dlit ieee (1 / 5)))) j) \<and>
   snd (arima_autoParams ieee libm_ref 0 2 2 pair_series) = Some 2"
proof -
  have 1: "fit_passes (arima_fit ieee libm_ref 0 2 pair_series) = 2"
    by code_simp
  have 2: "fit_converged (arima_fit ieee libm_ref 0 2 pair_series)"
    by code_simp
  from arima_fit_bounded [of ieee pair_series 0 2 libm_ref 2] 1 2 show ?thesis
    unfolding Let_def by simp
qed

section \<open>The autocorrelation and its entry of lag 0\<close>

text \<open>
  Claim C4, as stated, says that for every series with nonzero sample variance the entry
  of lag 0 is exactly 0.5.  On the series \<open>0, 0, 0, 0, 0, 1\<close> the product
  \<open>n * variance\<close> does not round back to the sum of squared deviations, and the entry is
  \<open>0.5 + 2^-24\<close>.
\<close>

theorem acf_lag0_counterexample:
  "acf ieee 0 6 6 spike_series 6 = Num False (8388609 / 16777216) \<and>
   \<not> is_zero (acf_var ieee spike_series 0 6 (acf_mean ieee spike_series 0 6)) \<and>
   \<not> fl_eq (acf ieee 0 6 6 spike_series 6) (Num False (1 / 2))"
proof -
  have 1: "acf ieee 0 6 6 spike_series 6 = Num False (8388609 / 16777216)"
    by code_simp
  have 2: "\<not> is_zero (acf_var ieee spike_series 0 6 (acf_mean ieee spike_series 0 6))"
    by code_simp
  have 3: "\<not> fl_eq (Num False (8388609 / 16777216)) (Num False (1 / 2))"
    by simp
  from 1 2 3 show ?thesis by simp
qed

text \<open>
  Claim C4, amended: for every series of length \<open>n \<ge> 1\<close> with nonzero sample variance
  whose buffer the output buffer does not overlap, \<^verbatim>\<open>acf\<close> writes
  \<open>result[i] = (\<Sum> j = i..n-1. (data[j] - mean) (data[j-i] - mean)) / ((n - i) variance)\<close>
  for each lag \<open>i = 1..n-1\<close>, the sum accumulated in the order of \<open>j\<close>, and \<open>result[0]\<close> is
  that value of lag 0 divided by 2, which equals exactly 0.5 when the sum of lag 0 is
  finite and the product \<open>n * variance\<close> rounds back to it (as for \<open>1, 2, 3, 4, 5\<close>).
  The variance is the sum of lag 0 divided by \<open>n\<close>; the formulas for the entries hold for
  every series.
\<close>

theorem acf_formula:
  assumes "{data..<data + nat n} \<inter> {res..<res + nat n} = {}"
  shows
    "let mean = acf_mean ieee h data n; var = acf_var ieee h data n mean
     in (1 \<le> i \<and> i < nat n \<longrightarrow>
           acf ieee data res n h (res + i) =
           fdiv ieee (acf_ac ieee h data n mean i) (fmul ieee (i2f ieee (n - int i)) var)) \<and>
        (0 < n \<longrightarrow>
           acf ieee data res n h res =
           fdiv ieee (fdiv ieee (acf_ac ieee h data n mean 0) (fmul ieee (i2f ieee n) var))
             (i2f ieee 2)) \<and>
        var = fdiv ieee (acf_ac ieee h data n mean 0) (i2f ieee n) \<and>
        (0 < n \<and> \<not> is_zero var \<and> acf_ac ieee h data n mean 0 = Num s m \<and>
         fmul ieee (i2f ieee n) var = Num s m \<longrightarrow>
           acf ieee data res n h res = Num False (1 / 2))"
proof -
  define mean where "mean = acf_mean ieee h data n"
  define var where "var = acf_var ieee h data n mean"
  have lag: "acf ieee data res n h (res + i) =
      fdiv ieee (acf_ac ieee h data n mean i) (fmul ieee (i2f ieee (n - int i)) var)"
    if "1 \<le> i" "i < nat n"
    using acf_value [OF assms that(2), of ieee h] that(1)
    by (simp add: Let_def mean_def var_def)
  have zero: "acf ieee data res n h res =
      fdiv ieee (fdiv ieee (acf_ac ieee h data n mean 0) (fmul ieee (i2f ieee n) var)) (i2f ieee 2)"
    if "0 < n"
  proof -
    from that have "0 < nat n" by simp
    from acf_value [OF assms this, of ieee h] show ?thesis
      by (simp add: Let_def mean_def var_def)
  qed
  have v: "var = fdiv ieee (acf_ac ieee h data n mean 0) (i2f ieee n)"
    by (simp add: var_def acf_var_def acf_ac_zero_lag)
  have half: "acf ieee data res n h res = Num False (1 / 2)"
    if "0 < n" "\<not> is_zero var" "acf_ac ieee h data n mean 0 = Num s m"
      "fmul ieee (i2f ieee n) var = Num s m"
  proof -
    from v that(3) have v': "var = fl_div binary32 (Num s m) (fl_of_int binary32 n)"
      by (simp only: ieee_sel)
    from that(4) have "fl_mul binary32 (fl_of_int binary32 n) var = Num s m"
      by (simp only: ieee_sel)
    with that(2) have m: "m \<noteq> 0"
      unfolding v' by (rule ieee_quotient_of_zero)
    from zero [OF that(1)] that(3,4) have "acf ieee data res n h res =
        fl_div binary32 (fl_div binary32 (Num s m) (Num s m)) (fl_of_int binary32 2)"
      by (simp only: ieee_sel)
    also have "\<dots> = Num False (1 / 2)"
      by (simp only: ieee_div_self [OF m] ieee_two ieee_one_half)
    finally show ?thesis .
  qed
  from lag zero v half show ?thesis
    unfolding Let_def mean_def [symmetric] var_def [symmetric] by blast
qed

theorem acf_formula_witness:
  "{0..<0 + nat 5} \<inter> {5..<5 + nat 5} = ({} :: nat set) \<and> (1::nat) \<le> 1 \<and> (1::nat) < nat 5 \<and>
   (0::int) < 5 \<and>
   \<not> is_zero (acf_var ieee ramp_series 0 5 (acf_mean ieee ramp_series 0 5)) \<and>
   acf_ac ieee ramp_series 0 5 (acf_mean ieee ramp_series 0 5) 0 = Num False 10 \<and>
   fmul ieee (i2f ieee 5) (acf_var ieee ramp_series 0 5 (acf_mean ieee ramp_series 0 5)) = Num False 10 \<and>
   acf ieee 0 5 5 ramp_series 5 = Num False (1 / 2) \<and>
   acf ieee 0 5 5 ramp_series (5 + 1) =
     fdiv ieee (acf_ac ieee ramp_series 0 5 (acf_mean ieee ramp_series 0 5) 1)
       (fmul ieee (i2f ieee (5 - int 1)) (acf_var ieee ramp_series 0 5 (acf_mean ieee ramp_series 0 5)))"
proof -
  have d: "{0..<0 + nat 5} \<inter> {5..<5 + nat 5} = ({} :: nat set)" by simp
  have 0: "\<not> is_zero (acf_var ieee ramp_series 0 5 (acf_mean ieee ramp_series 0 5))"
    by code_simp
  have 1: "acf_ac ieee ramp_series 0 5 (acf_mean ieee ramp_series 0 5) 0 = Num False 10"
    by code_simp
  have 2: "fmul ieee (i2f ieee 5) (acf_var ieee ramp_series 0 5 (acf_mean ieee ramp_series 0 5)) =
      Num False 10"
    by code_simp
  have 3: "(1::nat) \<le> 1" "(1::nat) < nat 5" "(0::int) < 5" by simp_all
  from acf_formula [OF d, of ramp_series 1 False 10] d 0 1 2 3 show ?thesis
    unfolding Let_def by blast
qed

section \<open>Entries of the output beyond the selected order\<close>

text \<open>
  Claim C5: after \<^verbatim>\<open>pacf\<close> returns, the entries of the output at the indices \<open>k\<close> with
  \<open>max_lag < k < n\<close> hold the values that the first loop wrote: the second loop writes
  only the indices \<open>0..max_lag\<close> and leaves every other cell as the first loop left it,
  and the first loop wrote the entry \<open>k\<close> in its order \<open>k\<close> and never again.
\<close>

theorem pacf_tail_kept:
  "(\<forall>a. a \<notin> {res..res + max_lag (pacf_explore A L U x res n h)} \<longrightarrow>
        fst (pacf A L U x res n h) a = heap (pacf_explore A L U x res n h) a) \<and>
   (max_lag (pacf_explore A L U x res n h) < k \<and> k < nat n \<longrightarrow>
        fst (pacf A L U x res n h) (res + k) = heap (explore_steps A L U x res n h (Suc k)) (res + k))"
proof (intro conjI allI impI)
  fix a
  assume "a \<notin> {res..res + max_lag (pacf_explore A L U x res n h)}"
  then show "fst (pacf A L U x res n h) a = heap (pacf_explore A L U x res n h) a"
    by (rule pacf_second_frame)
next
  assume k: "max_lag (pacf_explore A L U x res n h) < k \<and> k < nat n"
  then have "res + k \<notin> {res..res + max_lag (pacf_explore A L U x res n h)}" by simp
  then have "fst (pacf A L U x res n h) (res + k) = heap (pacf_explore A L U x res n h) (res + k)"
    by (rule pacf_second_frame)
  also have "\<dots> = heap (explore_steps A L U x res n h (Suc k)) (res + k)"
    unfolding pacf_explore_def using k by (intro explore_heap_stable) auto
  finally show "fst (pacf A L U x res n h) (res + k) =
      heap (explore_steps A L U x res n h (Suc k)) (res + k)" .
qed

theorem pacf_tail_kept_witness:
  "max_lag (pacf_explore ieee libm_ref junk0 0 2 2 zeros) < 1 \<and> (1::nat) < nat 2 \<and>
   fst (pacf ieee libm_ref junk0 0 2 2 zeros) (2 + 1) =
     heap (explore_steps ieee libm_ref junk0 0 2 2 zeros (Suc 1)) (2 + 1)"
proof -
  have 1: "max_lag (pacf_explore ieee libm_ref junk0 0 2 2 zeros) < 1"
    by code_simp
  have 2: "(1::nat) < nat 2" by simp
  from pacf_tail_kept [of 2 ieee libm_ref junk0 0 2 zeros 1] 1 2 show ?thesis by blast
qed

section \<open>The fit with fixed coefficients\<close>

text \<open>
  Claim C6: \<^verbatim>\<open>arima_setParams\<close> takes its third argument \<open>m\<close> as a byte length,
  \<open>0 \<le> m < 2^31\<close>, and processes exactly \<open>n = m / 4\<close> elements (truncating division;
  the division by \<^verbatim>\<open>sizeof\<close> is unsigned and agrees with it on every byte length); it
  uses the fixed coefficients \<open>phi = 0.5\<close> and \<open>theta = 0.2\<close>, takes \<open>mu\<close> as the mean of
  those \<open>n\<close> elements, and makes a single prediction pass with these values and no
  refinement: it leaves \<open>prediction[0]\<close> as it was and, when the buffers do not overlap,
  writes \<open>prediction[i] = mu + phi * data[i-1] + theta * error[i]\<close> for \<open>i = 1..n-1\<close>.
\<close>

theorem arima_setParams_fixed:
  assumes "0 \<le> m" and "m < 2 ^ 31"
  shows
    "let n = c_div m 4; phi = d2f A (dlit A (1 / 2)); theta = d2f A (dlit A (1 / 5));
         mu = fdiv A (fold (\<lambda>i mu. fadd A mu (h (data + i))) [0..<nat n] (d2f A (dlit A 0))) (i2f A n)
     in element_count m = n \<and>
        arima_setParams A data prediction m h = arma_predict A data prediction n mu phi theta h \<and>
        arima_setParams A data prediction m h prediction = h prediction \<and>
        ({data..<data + nat n} \<inter> {prediction..<prediction + nat n} = {} \<and> 1 \<le> i \<and> i < nat n \<longrightarrow>
           arima_setParams A data prediction m h (prediction + i) =
           fadd A (fadd A mu (fmul A phi (h (data + i - 1))))
                  (fmul A theta (arma_error A h data mu phi theta i)))"
proof -
  from assms have "m mod 2 ^ 32 = m" by simp
  then have e: "element_count m = m div 4" by (simp add: element_count_def)
  from assms(1) have c: "c_div m 4 = m div 4"
    by (cases "m = 0") (simp_all add: c_div_def)
  have p: "arima_setParams A data prediction m h prediction = h prediction"
    by (rule arima_setParams_frame) simp
  show ?thesis
    unfolding Let_def c
    using p
    by (auto simp: e arima_setParams_def Let_def series_mean_def arma_predict_value)
qed

theorem arima_setParams_fixed_witness:
  "(0::int) \<le> 8 \<and> (8::int) < 2 ^ 31 \<and> element_count 8 = 2 \<and>
   {0..<0 + nat (c_div 8 4)} \<inter> {2..<2 + nat (c_div 8 4)} = ({} :: nat set) \<and>
   (1::nat) \<le> 1 \<and> (1::nat) < nat (c_div 8 4) \<and>
   arima_setParams ieee 0 2 8 pair_series 2 = pair_series 2 \<and>
   arima_setParams ieee 0 2 8 pair_series (2 + 1) = Num False (11072963 / 4194304)"
proof -
  have 1: "(0::int) \<le> 8" "(8::int) < 2 ^ 31" by simp_all
  have 2: "c_div 8 4 = 2" by (simp add: c_div_def)
  have 3: "arima_setParams ieee 0 2 8 pair_series (2 + 1) = Num False (11072963 / 4194304)"
    by code_simp
  from arima_setParams_fixed [OF 1, of ieee pair_series 0 2 1] have
    "element_count 8 = c_div 8 4" and "arima_setParams ieee 0 2 8 pair_series 2 = pair_series 2"
    unfolding Let_def by blast+
  with 2 3 show ?thesis by simp
qed

section \<open>Predictions of the iterative fit\<close>

text \<open>
  Claim C7: after the update loop, \<^verbatim>\<open>arima_autoParams\<close> writes
  \<open>prediction[i] = mu + phi * data[i-1] + theta * error[i]\<close> with
  \<open>error[i] = data[i] - mu - phi * data[i-1] - theta * (data[i-1] - mu)\<close> for every
  \<open>i = 1..n-1\<close> (the buffers not overlapping, \<open>phi\<close> and \<open>theta\<close> the parameters the loop
  ended with), and it never writes \<open>prediction[0]\<close>, which keeps the value it had.
\<close>

theorem arima_autoParams_predictions:
  "fst (arima_autoParams A L data prediction n h) prediction = h prediction \<and>
   ({data..<data + nat n} \<inter> {prediction..<prediction + nat n} = {} \<and> 1 \<le> i \<and> i < nat n \<longrightarrow>
      (let mu = series_mean A h data n;
           phi = fst (fit_params (arima_fit A L data n h));
           theta = snd (fit_params (arima_fit A L data n h));
           error = fsub A (fsub A (fsub A (h (data + i)) mu) (fmul A phi (h (data + i - 1))))
                          (fmul A theta (fsub A (h (data + i - 1)) mu))
       in fst (arima_autoParams A L data prediction n h) (prediction + i) =
          fadd A (fadd A mu (fmul A phi (h (data + i - 1)))) (fmul A theta error)))"
proof (intro conjI impI)
  show "fst (arima_autoParams A L data prediction n h) prediction = h prediction"
    by (rule arima_autoParams_frame) simp
next
  assume a: "{data..<data + nat n} \<inter> {prediction..<prediction + nat n} = {} \<and> 1 \<le> i \<and> i < nat n"
  then have d: "{data..<data + nat n} \<inter> {prediction..<prediction + nat n} = {}"
    and i: "1 \<le> i" "i < nat n" by blast+
  show "let mu = series_mean A h data n;
           phi = fst (fit_params (arima_fit A L data n h));
           theta = snd (fit_params (arima_fit A L data n h));
           error = fsub A (fsub A (fsub A (h (data + i)) mu) (fmul A phi (h (data + i - 1))))
                          (fmul A theta (fsub A (h (data + i - 1)) mu))
       in fst (arima_autoParams A L data prediction n h) (prediction + i) =
          fadd A (fadd A mu (fmul A phi (h (data + i - 1)))) (fmul A theta error)"
    using arma_predict_value [OF d i, of A]
    by (simp add: arima_autoParams_def Let_def split_def arma_error_def)
qed

theorem arima_autoParams_predictions_witness:
  "{0..<0 + nat 2} \<inter> {2..<2 + nat 2} = ({} :: nat set) \<and> (1::nat) \<le> 1 \<and> (1::nat) < nat 2 \<and>
   fst (arima_autoParams ieee libm_ref 0 2 2 pair_series) 2 = pair_series 2 \<and>
   fst (arima_autoParams ieee libm_ref 0 2 2 pair_series) (2 + 1) = Num False (5 / 2)"
proof -
  have 1: "{0..<0 + nat 2} \<inter> {2..<2 + nat 2} = ({} :: nat set)" "(1::nat) \<le> 1" "(1::nat) < nat 2"
    by simp_all
  have 2: "fst (arima_autoParams ieee libm_ref 0 2 2 pair_series) (2 + 1) = Num False (5 / 2)"
    by code_simp
  from arima_autoParams_predictions [of ieee libm_ref 0 2 2 pair_series 1] 1 2 show ?thesis
    by simp
qed

section \<open>The Box-Cox transform with its fixed exponent\<close>

text \<open>
  Claim C8: with \<open>lambda\<close> fixed at 0.5, \<^verbatim>\<open>boxcox_transform\<close> writes
  \<open>result[i] = (data[i]^0.5 - 1) / 0.5\<close> for every \<open>i = 0..n-1\<close> (the power by the C
  library's \<^verbatim>\<open>pow\<close>, the subtraction and the division in \<^verbatim>\<open>double\<close>, the result
  narrowed to \<^verbatim>\<open>float\<close>; the buffers not overlapping); applied to \<open>4, 9, 16\<close> it
  returns \<open>2, 4, 6\<close>, for every C library whose \<^verbatim>\<open>pow\<close> gives the exact square roots
  2, 3 and 4 of these three values.
\<close>

theorem boxcox_half:
  "({data..<data + nat n} \<inter> {res..<res + nat n} = {} \<and> i < nat n \<longrightarrow>
      boxcox_transform ieee L data res n h (res + i) =
      d2f ieee (ddiv ieee (dsub ieee (lm_pow L (f2d ieee (h (data + i))) (Num False (1 / 2)))
                                     (Num False 1))
                          (Num False (1 / 2)))) \<and>
   ({data..<data + nat 3} \<inter> {res..<res + nat 3} = {} \<and>
    lm_pow L (Num False 4) (Num False (1 / 2)) = Num False 2 \<and>
    lm_pow L (Num False 9) (Num False (1 / 2)) = Num False 3 \<and>
    lm_pow L (Num False 16) (Num False (1 / 2)) = Num False 4 \<longrightarrow>
      load (boxcox_transform ieee L data res 3 (store data [Num False 4, Num False 9, Num False 16] h))
        res 3 = [Num False 2, Num False 4, Num False 6])"
proof -
  have cell: "boxcox_transform ieee L data res n h (res + i) =
      d2f ieee (ddiv ieee (dsub ieee (lm_pow L (f2d ieee (h (data + i))) (Num False (1 / 2)))
                                     (Num False 1))
                          (Num False (1 / 2)))"
    if "{data..<data + nat n} \<inter> {res..<res + nat n} = {}" "i < nat n" for n i h
    using boxcox_value [OF that, of ieee L h]
    by (simp add: Let_def ieee_half)
       (simp add: ieee_sel ieee_half_not_zero ieee_round_half_wide ieee_one_wide)
  have three:
    "load (boxcox_transform ieee L data res 3 (store data [Num False 4, Num False 9, Num False 16] h))
        res 3 = [Num False 2, Num False 4, Num False 6]"
    if d: "{data..<data + nat 3} \<inter> {res..<res + nat 3} = {}"
      and p: "lm_pow L (Num False 4) (Num False (1 / 2)) = Num False 2"
        "lm_pow L (Num False 9) (Num False (1 / 2)) = Num False 3"
        "lm_pow L (Num False 16) (Num False (1 / 2)) = Num False 4"
  proof -
    let ?h = "store data [Num False 4, Num False 9, Num False 16] h"
    have w: "round_fl binary64 False 4 = Num False 4" "round_fl binary64 False 9 = Num False 9"
      "round_fl binary64 False 16 = Num False 16"
      by code_simp+
    have a: "fl_cvt binary32 (fl_div binary64 (fl_sub binary64 (Num False 2) (Num False 1)) (Num False (1 / 2))) = Num False 2"
      "fl_cvt binary32 (fl_div binary64 (fl_sub binary64 (Num False 3) (Num False 1)) (Num False (1 / 2))) = Num False 4"
      "fl_cvt binary32 (fl_div binary64 (fl_sub binary64 (Num False 4) (Num False 1)) (Num False (1 / 2))) = Num False 6"
      by code_simp+
    have s: "?h (data + 0) = Num False 4" "?h (data + 1) = Num False 9" "?h (data + 2) = Num False 16"
      using store_at [of 0 "[Num False 4, Num False 9, Num False 16]" data h]
        store_at [of 1 "[Num False 4, Num False 9, Num False 16]" data h]
        store_at [of 2 "[Num False 4, Num False 9, Num False 16]" data h]
      by simp_all
    have c: "boxcox_transform ieee L data res 3 ?h (res + 0) = Num False 2"
      "boxcox_transform ieee L data res 3 ?h (res + 1) = Num False 4"
      "boxcox_transform ieee L data res 3 ?h (res + 2) = Num False 6"
      using cell [OF d, of 0 ?h] cell [OF d, of 1 ?h] cell [OF d, of 2 ?h]
      by (simp_all only: s) (simp_all add: ieee_sel w p a)
    have "[0..<3] = [0, 1, 2]" by (simp add: upt_rec)
    with c show ?thesis by (simp add: load_def)
  qed
  from cell three show ?thesis by blast
qed

theorem boxcox_half_witness:
  "{0..<0 + nat 3} \<inter> {3..<3 + nat 3} = ({} :: nat set) \<and>
   lm_pow libm_ref (Num False 4) (Num False (1 / 2)) = Num False 2 \<and>
   lm_pow libm_ref (Num False 9) (Num False (1 / 2)) = Num False 3 \<and>
   lm_pow libm_ref (Num False 16) (Num False (1 / 2)) = Num False 4 \<and>
   load (boxcox_transform ieee libm_ref 0 3 3 (store 0 [Num False 4, Num False 9, Num False 16] zeros))
     3 3 = [Num False 2, Num False 4, Num False 6]"
proof -
  have d: "{0..<0 + nat 3} \<inter> {3..<3 + nat 3} = ({} :: nat set)" by simp
  have p: "lm_pow libm_ref (Num False 4) (Num False (1 / 2)) = Num False 2"
    "lm_pow libm_ref (Num False 9) (Num False (1 / 2)) = Num False 3"
    "lm_pow libm_ref (Num False 16) (Num False (1 / 2)) = Num False 4"
    by code_simp+
  from boxcox_half [of 0 0 3 0 libm_ref zeros] d p show ?thesis by blast
qed

section \<open>The guarded division of the partial autocorrelation\<close>

text \<open>
  Claim C9: in every order of both loops of \<^verbatim>\<open>pacf\<close> the coefficient \<open>phi[k]\<close> is the
  guarded quotient of the two accumulated sums: when \<^verbatim>\<open>den == 0.0\<close> holds it is set to
  0 and \<open>num / den\<close> is not computed, and a denominator that is a zero always satisfies
  that test, so the quotient is never taken with a zero denominator.  \<^verbatim>\<open>linear_detrend\<close>
  and \<^verbatim>\<open>acf\<close> divide without such a test: on a series of length 1 the former divides
  0 by 0, on a constant series the latter does, and both write NaN.
\<close>

theorem pacf_guarded_division:
  "phi (explore_order A L U r res n k s) k =
     pacf_coef A (pacf_num_den A r (below_r U 1 k) (phi s) k n) \<and>
   fst (pacf_order A r b res n k (ph, h)) k = pacf_coef A (pacf_num_den A r b ph k n) \<and>
   pacf_coef A (num, den) =
     (if deq A (f2d A den) (dlit A 0) then d2f A (dlit A 0) else fdiv A num den) \<and>
   (is_zero z \<longrightarrow> deq ieee (f2d ieee z) (dlit ieee 0) \<and> pacf_coef ieee (y, z) = Num False 0) \<and>
   load (linear_detrend ieee 0 1 1 single_series) 1 1 = [NaN] \<and>
   load (acf ieee 0 2 2 const_series) 2 2 = [NaN, NaN]"
proof -
  have 1: "phi (explore_order A L U r res n k s) k =
     pacf_coef A (pacf_num_den A r (below_r U 1 k) (phi s) k n)"
    by (simp add: explore_order_phi pacf_order_def Let_def)
  have 2: "fst (pacf_order A r b res n k (ph, h)) k = pacf_coef A (pacf_num_den A r b ph k n)"
    by (simp add: pacf_order_def Let_def)
  have 3: "pacf_coef A (num, den) =
     (if deq A (f2d A den) (dlit A 0) then d2f A (dlit A 0) else fdiv A num den)"
    by (simp add: pacf_coef_def)
  have 4: "is_zero z \<longrightarrow> deq ieee (f2d ieee z) (dlit ieee 0) \<and> pacf_coef ieee (y, z) = Num False 0"
    using ieee_zero_guard(1) [of z] ieee_zero_guard(2) [of z y] by blast
  have 5: "load (linear_detrend ieee 0 1 1 single_series) 1 1 = [NaN]"
    by code_simp
  have 6: "load (acf ieee 0 2 2 const_series) 2 2 = [NaN, NaN]"
    by code_simp
  from 1 2 3 4 5 6 show ?thesis by blast
qed

theorem pacf_guarded_division_witness:
  "is_zero (snd (pacf_num_den ieee (\<lambda>i. zeros (0 + i)) (below_r junk0 1 0) (init_phi junk0) 0 2)) \<and>
   pacf_coef ieee (pacf_num_den ieee (\<lambda>i. zeros (0 + i)) (below_r junk0 1 0) (init_phi junk0) 0 2) =
     Num False 0"
proof -
  let ?nd = "pacf_num_den ieee (\<lambda>i. zeros (0 + i)) (below_r junk0 1 0) (init_phi junk0) 0 2"
  have z: "is_zero (snd ?nd)" by code_simp
  note g = pacf_guarded_division [where z = "snd ?nd" and y = "fst ?nd",
      THEN conjunct2, THEN conjunct2, THEN conjunct2, THEN conjunct1]
  from g z have "pacf_coef ieee (fst ?nd, snd ?nd) = Num False 0" by (simp only:)
  with z show ?thesis by simp
qed

section \<open>The input buffer\<close>

text \<open>
  Claim C10: when the output buffer does not overlap the input buffer, every entry point
  leaves the input buffer as it was.  Each function writes only cells of its output
  buffer; \<^verbatim>\<open>arima_setParams\<close> takes the element count from its byte length.
\<close>

theorem input_buffer_unchanged:
  assumes "{data..<data + nat n} \<inter> {out..<out + nat n} = {}" and "i < nat n"
  shows "linear_detrend A data out n h (data + i) = h (data + i) \<and>
         fst (arima_autoParams A L data out n h) (data + i) = h (data + i) \<and>
         (element_count m = n \<longrightarrow> arima_setParams A data out m h (data + i) = h (data + i)) \<and>
         acf A data out n h (data + i) = h (data + i) \<and>
         fst (pacf A L U data out n h) (data + i) = h (data + i) \<and>
         boxcox_transform A L data out n h (data + i) = h (data + i)"
proof -
  from assms(2) have "data + i \<in> {data..<data + nat n}" by simp
  with assms(1) have out: "data + i \<notin> {out..<out + nat n}" by blast
  from assms(2) have pos: "0 < n" by simp
  then have "out \<in> {out..<out + nat n}" by simp
  with assms(1) \<open>data + i \<in> {data..<data + nat n}\<close> have ne: "data + i \<noteq> out" by blast
  from out have out1: "data + i \<notin> {out + 1..<out + nat n}" by simp
  have 1: "linear_detrend A data out n h (data + i) = h (data + i)"
    using out by (rule linear_detrend_frame)
  have 2: "fst (arima_autoParams A L data out n h) (data + i) = h (data + i)"
    using out1 by (rule arima_autoParams_frame)
  have 3: "arima_setParams A data out m h (data + i) = h (data + i)" if "element_count m = n"
    using out1 that by (intro arima_setParams_frame) simp
  have 4: "acf A data out n h (data + i) = h (data + i)"
    using out ne by (rule acf_frame)
  have 5: "fst (pacf A L U data out n h) (data + i) = h (data + i)"
    using pos out by (rule pacf_frame)
  have 6: "boxcox_transform A L data out n h (data + i) = h (data + i)"
    using out by (rule boxcox_transform_frame)
  from 1 2 3 4 5 6 show ?thesis by blast
qed

theorem input_buffer_unchanged_witness:
  "{0..<0 + nat 2} \<inter> {2..<2 + nat 2} = ({} :: nat set) \<and> (1::nat) < nat 2 \<and> element_count 8 = 2 \<and>
   linear_detrend ieee 0 2 2 pair_series (0 + 1) = pair_series (0 + 1) \<and>
   fst (arima_autoParams ieee libm_ref 0 2 2 pair_series) (0 + 1) = pair_series (0 + 1) \<and>
   arima_setParams ieee 0 2 8 pair_series (0 + 1) = pair_series (0 + 1) \<and>
   acf ieee 0 2 2 pair_series (0 + 1) = pair_series (0 + 1) \<and>
   fst (pacf ieee libm_ref junk0 0 2 2 pair_series) (0 + 1) = pair_series (0 + 1) \<and>
   boxcox_transform ieee libm_ref 0 2 2 pair_series (0 + 1) = pair_series (0 + 1)"
proof -
  have 1: "{0..<0 + nat 2} \<inter> {2..<2 + nat 2} = ({} :: nat set)" by simp
  have 2: "(1::nat) < nat 2" by simp
  have 3: "element_count 8 = 2" by (simp add: element_count_def)
  from input_buffer_unchanged [OF 1 2, of ieee pair_series libm_ref 8 junk0] 1 2 3
  show ?thesis by blast
qed

end
